theory Spec2Isabelle
  imports Complex_Main "HOL-Library.AList"
begin

section \<open>Python and numpy failures as values\<close>

text \<open>
  The self-play engine of \<^verbatim>\<open>baselines/MCTS/save_1/mct1.py\<close> is embedded function by
  function. Every exception the source can raise is a value of \<open>error\<close>; a function that
  can raise returns \<open>error + 'a\<close> with \<open>Inl\<close> for the exception.
  \<open>NotANumber\<close> stands for a numpy division by a zero divisor: numpy does not raise there,
  it yields \<open>nan\<close> or \<open>inf\<close> entries, which have no counterpart in real arithmetic.
\<close>

datatype error =
  AssertionError | IndexError | ValueError | AttributeError | KeyError | ZeroDivisionError
  | NotANumber

text \<open>Reading and writing a one-dimensional numpy array by an integer index: an index in
  \<open>[-n, 0)\<close> counts from the end, an index outside \<open>[-n, n)\<close> raises IndexError.\<close>

definition np_index :: "nat \<Rightarrow> int \<Rightarrow> error + nat" where
  "np_index n i =
     (if 0 \<le> i \<and> i < int n then Inr (nat i)
      else if - int n \<le> i \<and> i < 0 then Inr (nat (int n + i))
      else Inl IndexError)"

definition np_get :: "'a list \<Rightarrow> int \<Rightarrow> error + 'a" where
  "np_get xs i = (case np_index (length xs) i of Inl e \<Rightarrow> Inl e | Inr j \<Rightarrow> Inr (xs ! j))"

definition np_set :: "'a list \<Rightarrow> int \<Rightarrow> 'a \<Rightarrow> error + 'a list" where
  "np_set xs i v =
     (case np_index (length xs) i of Inl e \<Rightarrow> Inl e | Inr j \<Rightarrow> Inr (xs[j := v]))"

section \<open>The histogram of sampled actions: \<^verbatim>\<open>get_nrepeat_count\<close>\<close>

text \<open>
  \<^verbatim>\<open>
  def get_nrepeat_count(action, nact):
      action = np.sort(action)
      counts = np.zeros(nact, dtype = int)
      base = 0
      start = 0
      for i in range(action.shape[0]):
          if action[i] > base:
              counts[base] = i - start
              start = i
              base = action[i]
      counts[base] = action.shape[0] - start
      return counts
  \<close>
  The loop state is \<open>(counts, start, base)\<close>; \<open>count_loop\<close> runs the body over the list of
  indices that \<^verbatim>\<open>range\<close> yields. \<^verbatim>\<open>nact\<close> is a size, hence a \<open>nat\<close>.
\<close>

type_synonym count_state = "int list \<times> int \<times> int"

definition count_body :: "int list \<Rightarrow> nat \<Rightarrow> count_state \<Rightarrow> error + count_state" where
  "count_body action i st =
     (case st of (counts, start, base) \<Rightarrow>
        (case np_get action (int i) of
           Inl e \<Rightarrow> Inl e
         | Inr x \<Rightarrow>
             if x > base then
               (case np_set counts base (int i - start) of
                  Inl e \<Rightarrow> Inl e
                | Inr counts' \<Rightarrow> Inr (counts', int i, x))
             else Inr (counts, start, base)))"

fun count_loop :: "int list \<Rightarrow> nat list \<Rightarrow> count_state \<Rightarrow> error + count_state" where
  "count_loop action [] st = Inr st"
| "count_loop action (i # is) st =
     (case count_body action i st of
        Inl e \<Rightarrow> Inl e
      | Inr st' \<Rightarrow> count_loop action is st')"

definition get_nrepeat_count :: "int list \<Rightarrow> nat \<Rightarrow> error + int list" where
  "get_nrepeat_count action0 nact =
     (let action = sort action0;
          counts = replicate nact (0::int)
      in case count_loop action [0..<length action] (counts, 0, 0) of
           Inl e \<Rightarrow> Inl e
         | Inr (counts', start, base) \<Rightarrow>
             np_set counts' base (int (length action) - start))"

section \<open>Loop invariants of the histogram\<close>

text \<open>After \<open>k\<close> iterations over the sorted input \<open>a\<close>: the counts vector keeps its
  length, \<open>base\<close> is never negative and bounds the elements seen so far.\<close>

definition bounds_inv :: "int list \<Rightarrow> nat \<Rightarrow> nat \<Rightarrow> count_state \<Rightarrow> bool" where
  "bounds_inv a nact k st =
     (case st of (counts, start, base) \<Rightarrow>
        length counts = nact \<and> 0 \<le> base \<and> (\<forall>j<k. a ! j \<le> base))"

text \<open>When every element is below \<open>nact\<close>, \<open>base\<close> stays a valid index.\<close>

definition safe_inv :: "nat \<Rightarrow> count_state \<Rightarrow> bool" where
  "safe_inv nact st =
     (case st of (counts, start, base) \<Rightarrow> length counts = nact \<and> 0 \<le> base \<and> base < int nact)"

text \<open>On sorted non-negative input: \<open>start\<close> is the number of elements below \<open>base\<close>,
  the entries below \<open>base\<close> hold the final occurrence counts, the others are still zero.\<close>

definition hist_inv :: "int list \<Rightarrow> nat \<Rightarrow> nat \<Rightarrow> count_state \<Rightarrow> bool" where
  "hist_inv a nact k st =
     (case st of (counts, start, base) \<Rightarrow>
        length counts = nact \<and> 0 \<le> base \<and>
        start = int (length (filter (\<lambda>x. x < base) (take k a))) \<and>
        (\<forall>x\<in>set (take k a). x \<le> base) \<and>
        (base = 0 \<or> base \<in> set (take k a)) \<and>
        (\<forall>b<nact. counts ! b =
           (if int b < base then int (count_list (take k a) (int b)) else 0)))"

section \<open>Numeric utilities: \<^verbatim>\<open>softmax\<close> and \<^verbatim>\<open>get_PI\<close>\<close>

text \<open>
  Floating-point vectors are modelled in exact real arithmetic. \<open>np_div_sum\<close> is the
  numpy expression \<^verbatim>\<open>v / v.sum()\<close>; \<open>np_power\<close> is \<^verbatim>\<open>np.power\<close> with a real exponent:
  a positive base is raised with \<open>powr\<close>, a base with an integral exponent by repeated
  multiplication or division, zero to a positive exponent is zero, and what numpy
  answers with \<open>nan\<close> or \<open>inf\<close> is \<open>NotANumber\<close>.
\<close>

definition np_div_sum :: "real list \<Rightarrow> error + real list" where
  "np_div_sum v = (if sum_list v = 0 then Inl NotANumber else Inr (map (\<lambda>x. x / sum_list v) v))"

definition np_power :: "real \<Rightarrow> real \<Rightarrow> error + real" where
  "np_power x p =
     (if 0 < x then Inr (x powr p)
      else if p = of_int \<lfloor>p\<rfloor> \<and> (x \<noteq> 0 \<or> 0 \<le> p) then Inr (x powi \<lfloor>p\<rfloor>)
      else if x = 0 \<and> 0 < p then Inr 0
      else Inl NotANumber)"

fun np_power_all :: "real list \<Rightarrow> real \<Rightarrow> error + real list" where
  "np_power_all [] p = Inr []"
| "np_power_all (x # xs) p =
     (case np_power x p of
        Inl e \<Rightarrow> Inl e
      | Inr y \<Rightarrow> (case np_power_all xs p of Inl e \<Rightarrow> Inl e | Inr ys \<Rightarrow> Inr (y # ys)))"

text \<open>
  \<^verbatim>\<open>
  def softmax(x):
      e_x = np.exp(x - np.max(x))
      return e_x / e_x.sum()
  \<close>
  \<^verbatim>\<open>np.max\<close> of an empty array raises ValueError.
\<close>

definition softmax :: "real list \<Rightarrow> error + real list" where
  "softmax x =
     (if x = [] then Inl ValueError
      else np_div_sum (map (\<lambda>a. exp (a - Max (set x))) x))"

text \<open>
  \<^verbatim>\<open>
  def get_PI(counts, tau):
      p = 1 / tau
      counts = counts / counts.sum()
      while p >= 10:
          counts = np.power(counts, 10)
          p = p / 10
          counts = counts / counts.sum()
      Pi = np.power(counts, p)
      Pi = Pi / np.sum(Pi)
      return Pi
  \<close>
  The loop divides \<open>p\<close> by ten while it is at least ten, so it ends: the integer part of
  \<open>p\<close> decreases.
\<close>

function get_PI_loop :: "real list \<Rightarrow> real \<Rightarrow> error + real list \<times> real" where
  "get_PI_loop counts p =
     (if 10 \<le> p then
        (case np_div_sum (map (\<lambda>x. x ^ 10) counts) of
           Inl e \<Rightarrow> Inl e
         | Inr counts' \<Rightarrow> get_PI_loop counts' (p / 10))
      else Inr (counts, p))"
  by pat_completeness auto
termination
proof (relation "measure (\<lambda>(counts, p). nat \<lfloor>p\<rfloor>)")
  show "wf (measure (\<lambda>(counts, p). nat \<lfloor>p\<rfloor>))" by simp
next
  fix counts :: "real list" and p :: real and x2 :: "real list"
  assume p: "10 \<le> p"
  have "of_int \<lfloor>p / 10\<rfloor> \<le> p / 10" by (rule of_int_floor_le)
  also have "\<dots> \<le> p - 9" using p by simp
  finally have "\<lfloor>p / 10\<rfloor> \<le> \<lfloor>p - 9\<rfloor>" by (simp only: le_floor_iff)
  then have "\<lfloor>p / 10\<rfloor> < \<lfloor>p\<rfloor>" by linarith
  moreover have "0 < \<lfloor>p\<rfloor>" using p by linarith
  ultimately show "((x2, p / 10), (counts, p)) \<in> measure (\<lambda>(counts, p). nat \<lfloor>p\<rfloor>)"
    by simp
qed

declare get_PI_loop.simps [simp del]

definition get_PI :: "real list \<Rightarrow> real \<Rightarrow> error + real list" where
  "get_PI counts0 tau =
     (if tau = 0 then Inl ZeroDivisionError
      else
        (case np_div_sum counts0 of
           Inl e \<Rightarrow> Inl e
         | Inr counts \<Rightarrow>
             (case get_PI_loop counts (1 / tau) of
                Inl e \<Rightarrow> Inl e
              | Inr (counts', p) \<Rightarrow>
                  (case np_power_all counts' p of
                     Inl e \<Rightarrow> Inl e
                   | Inr Pi \<Rightarrow> np_div_sum Pi))))"

text \<open>The spec's words for the same transform: a single exponentiation by \<open>1 / tau\<close>
  followed by normalization.\<close>

definition sharpen_spec :: "real list \<Rightarrow> real \<Rightarrow> real list" where
  "sharpen_spec counts tau =
     map (\<lambda>c. c powr (1 / tau) / (\<Sum>y\<leftarrow>counts. y powr (1 / tau))) counts"

text \<open>Invariant of the sharpening loop: the vector is a positive multiple of the \<open>q\<close>-th
  powers of the original counts.\<close>

definition scaled_powers :: "real list \<Rightarrow> real \<Rightarrow> real list \<Rightarrow> bool" where
  "scaled_powers c0 q v = (\<exists>k>0. v = map (\<lambda>x. k * x powr q) c0)"

section \<open>The policy node: \<^verbatim>\<open>Pi_struct\<close>\<close>

text \<open>
  The environment's observation is a three-dimensional numpy array: its shape and its
  cells in row-major order (\<open>length (cells s) = dim0 s * dim1 s * dim2 s\<close> for every array
  numpy builds). The cached state is the two-dimensional matrix that
  \<^verbatim>\<open>sp.csc_matrix\<close> stores.
\<close>

record ndarray3 =
  dim0 :: nat
  dim1 :: nat
  dim2 :: nat
  cells :: "real list"

record matrix2 =
  nrows :: nat
  ncols :: nat
  entries :: "real list"

text \<open>
  The attributes of a \<^verbatim>\<open>Pi_struct\<close> object. \<^verbatim>\<open>size\<close>, \<^verbatim>\<open>file_no\<close>, \<^verbatim>\<open>next\<close>, \<^verbatim>\<open>state\<close> and
  \<^verbatim>\<open>Pi\<close> carry a prefix or suffix because their names are taken. The attributes that
  \<^verbatim>\<open>__init__\<close> does not set (\<^verbatim>\<open>isValid\<close>, \<^verbatim>\<open>state\<close>, \<^verbatim>\<open>Pi\<close>, \<^verbatim>\<open>nrepeats\<close>) are \<open>None\<close> until
  assigned; reading one before raises AttributeError.

  The objects form a tree: a node owns its children through the \<^verbatim>\<open>children\<close> dictionary
  (an association list in insertion order), and each child is created with
  \<^verbatim>\<open>parent = self\<close>. A reference to a node is the list of actions leading to it from the
  root; the \<^verbatim>\<open>parent\<close> of the node at path \<open>p\<close> is the node at \<open>butlast p\<close>, and the root
  (path \<open>[]\<close>) has \<^verbatim>\<open>parent = None\<close>.
\<close>

record Pi_fields =
  psize :: nat
  repeat :: int
  level :: int
  pfile_no :: nat
  tau :: "int \<Rightarrow> real"
  pnext :: nat
  score :: int
  evaluated :: bool
  isValid :: "bool list option"
  pstate :: "matrix2 option"
  Pi_vec :: "real list option"
  nrepeats :: "int list option"

datatype Pi_struct = Pi_struct (attrs: Pi_fields) (children: "(nat \<times> Pi_struct) list")

definition Pi_struct_init :: "nat \<Rightarrow> int \<Rightarrow> int \<Rightarrow> nat \<Rightarrow> (int \<Rightarrow> real) \<Rightarrow> Pi_struct" where
  "Pi_struct_init size0 repeat0 level0 file_no0 tau0 =
     Pi_struct
       \<lparr>psize = size0, repeat = repeat0, level = level0, pfile_no = file_no0, tau = tau0,
        pnext = 0, score = 0, evaluated = False, isValid = None, pstate = None,
        Pi_vec = None, nrepeats = None\<rparr> []"

fun node_at :: "Pi_struct \<Rightarrow> nat list \<Rightarrow> Pi_struct option" where
  "node_at n [] = Some n"
| "node_at n (a # p) =
     (case map_of (children n) a of None \<Rightarrow> None | Some c \<Rightarrow> node_at c p)"

fun replace_at :: "Pi_struct \<Rightarrow> nat list \<Rightarrow> Pi_struct \<Rightarrow> Pi_struct" where
  "replace_at n [] n' = n'"
| "replace_at n (a # p) n' =
     (case map_of (children n) a of
        None \<Rightarrow> n
      | Some c \<Rightarrow> Pi_struct (attrs n) (AList.update a (replace_at c p n') (children n)))"

text \<open>
  \<^verbatim>\<open>
  def add_state(self, state):
      self.isValid = np.reshape(np.any(state, axis = 0), [self.size,])
      state_2d = np.reshape(state, [-1, state.shape[1] * state.shape[2]])
      self.state = sp.csc_matrix(state_2d)
  \<close>
  The first reshape raises ValueError unless \<open>dim1 * dim2 = size\<close>; the second cannot
  infer the \<open>-1\<close> when \<open>dim1 * dim2 = 0\<close>.
\<close>

definition np_any_axis0 :: "ndarray3 \<Rightarrow> bool list" where
  "np_any_axis0 s =
     map (\<lambda>j. list_ex (\<lambda>i. cells s ! (i * (dim1 s * dim2 s) + j) \<noteq> 0) [0..<dim0 s])
       [0..<dim1 s * dim2 s]"

definition add_state :: "ndarray3 \<Rightarrow> Pi_struct \<Rightarrow> error + Pi_struct" where
  "add_state s n =
     (if dim1 s * dim2 s \<noteq> psize (attrs n) then Inl ValueError
      else if dim1 s * dim2 s = 0 then Inl ValueError
      else Inr (Pi_struct
        ((attrs n)\<lparr>isValid := Some (np_any_axis0 s),
                    pstate := Some \<lparr>nrows = dim0 s, ncols = dim1 s * dim2 s, entries = cells s\<rparr>\<rparr>)
        (children n)))"

text \<open>The product of a vector with the boolean mask, with numpy's broadcasting of a
  one-element operand; other length mismatches raise ValueError.\<close>

definition np_mul_mask :: "'a::zero list \<Rightarrow> bool list \<Rightarrow> error + 'a list" where
  "np_mul_mask xs bs =
     (if length xs = length bs then Inr (map2 (\<lambda>x b. if b then x else 0) xs bs)
      else if length xs = 1 then Inr (map (\<lambda>b. if b then hd xs else 0) bs)
      else if length bs = 1 then Inr (map (\<lambda>x. if hd bs then x else 0) xs)
      else Inl ValueError)"

text \<open>
  \<^verbatim>\<open>
  for i in range(self.size):
      if self.nrepeats[i] > 0.5:
          self.children[i] = Pi_struct(self.size, self.nrepeats[i], self.level + 1,
                                       self.file_no, self.tau, parent = self)
  \<close>
\<close>

fun add_children ::
  "Pi_fields \<Rightarrow> int list \<Rightarrow> nat list \<Rightarrow> (nat \<times> Pi_struct) list \<Rightarrow> error + (nat \<times> Pi_struct) list"
where
  "add_children f nr [] ch = Inr ch"
| "add_children f nr (i # is) ch =
     (case np_get nr (int i) of
        Inl e \<Rightarrow> Inl e
      | Inr r \<Rightarrow>
          if real_of_int r > 0.5 then
            add_children f nr is
              (AList.update i (Pi_struct_init (psize f) r (level f + 1) (pfile_no f) (tau f)) ch)
          else add_children f nr is ch)"

text \<open>
  \<^verbatim>\<open>
  def add_counts(self, counts):
      assert counts.sum() == (counts * self.isValid).sum(), ...
      self.Pi = get_PI(counts, self.tau(self.level))
      assert (self.isValid * self.Pi).sum() > 0.999999, ...
      action = np.random.choice(range(self.size), self.repeat, p = self.Pi)
      self.nrepeats = get_nrepeat_count(action, self.size)
      assert self.repeat == (self.nrepeats * self.isValid).sum(), ...
      for i in range(self.size): ...
      self.evaluated = True
  \<close>
  \<^verbatim>\<open>np.random.choice\<close> is outside the program: \<open>choice\<close> is any function of the arguments
  and of the state \<open>'w\<close> of the outside world, and may raise.
\<close>

type_synonym 'w chooser = "nat \<Rightarrow> int \<Rightarrow> real list \<Rightarrow> 'w \<Rightarrow> (error + int list) \<times> 'w"

definition add_counts ::
  "'w chooser \<Rightarrow> real list \<Rightarrow> Pi_struct \<Rightarrow> 'w \<Rightarrow> error + Pi_struct \<times> 'w"
where
  "add_counts choice counts n w =
     (let f = attrs n in
      case isValid f of
        None \<Rightarrow> Inl AttributeError
      | Some iv \<Rightarrow>
      (case np_mul_mask counts iv of
        Inl e \<Rightarrow> Inl e
      | Inr masked \<Rightarrow>
      if sum_list counts \<noteq> sum_list masked then Inl AssertionError
      else
      (case get_PI counts (tau f (level f)) of
        Inl e \<Rightarrow> Inl e
      | Inr Pi \<Rightarrow>
      (case np_mul_mask Pi iv of
        Inl e \<Rightarrow> Inl e
      | Inr maskedPi \<Rightarrow>
      if \<not> sum_list maskedPi > 0.999999 then Inl AssertionError
      else
      (case choice (psize f) (repeat f) Pi w of
        (Inl e, w') \<Rightarrow> Inl e
      | (Inr action, w') \<Rightarrow>
      (case get_nrepeat_count action (psize f) of
        Inl e \<Rightarrow> Inl e
      | Inr nr \<Rightarrow>
      (case np_mul_mask nr iv of
        Inl e \<Rightarrow> Inl e
      | Inr maskedNr \<Rightarrow>
      if repeat f \<noteq> sum_list maskedNr then Inl AssertionError
      else
      (case add_children f nr [0..<psize f] (children n) of
        Inl e \<Rightarrow> Inl e
      | Inr ch \<Rightarrow>
          Inr (Pi_struct (f\<lparr>Pi_vec := Some Pi, nrepeats := Some nr, evaluated := True\<rparr>) ch,
               w')))))))))"

text \<open>
  \<^verbatim>\<open>
  def get_next(self):
      while self.next < self.size and (self.nrepeats[self.next] < 0.5
                                       or not self.isValid[self.next]):
          self.next += 1
      if self.next >= self.size:
          return -1 # no more actions to go
      return self.next
  \<close>
  The loop ends because \<open>size - next\<close> decreases.
\<close>

function get_next_loop :: "Pi_fields \<Rightarrow> error + Pi_fields" where
  "get_next_loop f =
     (if pnext f < psize f then
        (case nrepeats f of
           None \<Rightarrow> Inl AttributeError
         | Some nr \<Rightarrow>
             (case np_get nr (int (pnext f)) of
                Inl e \<Rightarrow> Inl e
              | Inr r \<Rightarrow>
                  if real_of_int r < 0.5 then get_next_loop (f\<lparr>pnext := pnext f + 1\<rparr>)
                  else
                    (case isValid f of
                       None \<Rightarrow> Inl AttributeError
                     | Some iv \<Rightarrow>
                         (case np_get iv (int (pnext f)) of
                            Inl e \<Rightarrow> Inl e
                          | Inr v \<Rightarrow>
                              if \<not> v then get_next_loop (f\<lparr>pnext := pnext f + 1\<rparr>)
                              else Inr f))))
      else Inr f)"
  by pat_completeness auto
termination
  by (relation "measure (\<lambda>f. psize f - pnext f)") auto

declare get_next_loop.simps [simp del]

definition get_next :: "Pi_fields \<Rightarrow> error + int \<times> Pi_fields" where
  "get_next f =
     (case get_next_loop f of
        Inl e \<Rightarrow> Inl e
      | Inr f' \<Rightarrow> if pnext f' \<ge> psize f' then Inr (- 1, f') else Inr (int (pnext f'), f'))"

text \<open>
  \<^verbatim>\<open>
  def set_next(self, additional_score):
      self.score += additional_score
      self.next += 1
      next = self.get_next()
      if (self.get_next() < 0 and self.parent is not None):
          return self.parent.set_next(self.score)
      return next
  \<close>
  \<open>set_next tree p s\<close> is the call on the node at path \<open>p\<close> of \<open>tree\<close>. Besides the
  returned index and the updated tree it reports the invocations it made, itself first:
  the path of each receiver with the score passed to it.
\<close>

function set_next ::
  "Pi_struct \<Rightarrow> nat list \<Rightarrow> int \<Rightarrow> error + int \<times> Pi_struct \<times> (nat list \<times> int) list"
where
  "set_next tree p additional_score =
     (case node_at tree p of
        None \<Rightarrow> Inl KeyError
      | Some n \<Rightarrow>
          (case get_next ((attrs n)\<lparr>score := score (attrs n) + additional_score,
                                    pnext := pnext (attrs n) + 1\<rparr>) of
             Inl e \<Rightarrow> Inl e
           | Inr (nxt, f2) \<Rightarrow>
               (case get_next f2 of
                  Inl e \<Rightarrow> Inl e
                | Inr (nxt2, f3) \<Rightarrow>
                    if nxt2 < 0 \<and> p \<noteq> [] then
                      (case set_next (replace_at tree p (Pi_struct f3 (children n)))
                              (butlast p) (score f3) of
                         Inl e \<Rightarrow> Inl e
                       | Inr (r, tree', calls) \<Rightarrow> Inr (r, tree', (p, additional_score) # calls))
                    else
                      Inr (nxt, replace_at tree p (Pi_struct f3 (children n)),
                           [(p, additional_score)]))))"
  by pat_completeness auto
termination
  by (relation "measure (\<lambda>(tree, p, s). length p)") auto

declare set_next.simps [simp del]

section \<open>The self-play driver: \<^verbatim>\<open>MCT\<close>\<close>

text \<open>
  The environment object (\<^verbatim>\<open>sat\<close> of the minisat gym) and numpy's random generator are
  outside the program. Their joint state is a value of an arbitrary type \<open>'w\<close>, and the
  methods the driver calls are arbitrary functions on it, collected in \<open>outside\<close>:
  \<^verbatim>\<open>resetAt(file_no)\<close> returns a state or \<^verbatim>\<open>None\<close>, \<^verbatim>\<open>simulate(pi, v)\<close> returns
  \<^verbatim>\<open>(state, needEnv, needSim)\<close>, \<^verbatim>\<open>get_visit_count()\<close> the counts and \<^verbatim>\<open>step(action)\<close>
  returns \<^verbatim>\<open>(isDone, state)\<close>.
\<close>

record 'w outside =
  resetAt :: "nat \<Rightarrow> 'w \<Rightarrow> ndarray3 option \<times> 'w"
  simulate :: "real list \<Rightarrow> real \<Rightarrow> 'w \<Rightarrow> (ndarray3 \<times> bool \<times> bool) \<times> 'w"
  get_visit_count :: "'w \<Rightarrow> real list \<times> 'w"
  step :: "int \<Rightarrow> 'w \<Rightarrow> (bool \<times> ndarray3) \<times> 'w"
  random_choice :: "'w chooser"

text \<open>
  The attributes of an \<^verbatim>\<open>MCT\<close> object. \<^verbatim>\<open>Pi_current\<close> is a reference into the tree of
  \<^verbatim>\<open>Pi_root\<close>: the path of the current node. \<^verbatim>\<open>phase\<close> is \<^verbatim>\<open>False\<close>, \<^verbatim>\<open>True\<close> or \<^verbatim>\<open>None\<close>.
  \<open>traversals\<close> is not an attribute of the source: it records, for every traversal that
  \<^verbatim>\<open>get_state\<close> ends with a call of \<^verbatim>\<open>set_next\<close>, the path of the node where it ended, the
  action stepped, the repeat count \<^verbatim>\<open>nrepeats[next_act]\<close> credited and the chain of
  \<^verbatim>\<open>set_next\<close> invocations that call caused. No operation reads it.
\<close>

datatype traversal =
  Traversal (t_node: "nat list") (t_action: int) (t_credit: int) (t_calls: "(nat list \<times> int) list")

record 'w MCT =
  world :: 'w
  file_no :: nat
  state :: "ndarray3 option"
  Pi_root :: "Pi_struct option"
  Pi_current :: "nat list"
  min_step :: int
  max_step :: int
  resign :: int
  phase :: "bool option"
  traversals :: "traversal list"

text \<open>
  \<^verbatim>\<open>
  def __init__(self, file_path, file_no, max_clause1, max_var1, nrepeat, tau, resign = 1000000):
      self.env = sat(file_path, max_clause = max_clause1, max_var = max_var1)
      self.file_no = file_no
      self.state = self.env.resetAt(file_no)
      if self.state is None:
          self.Pi_root = None
          self.phase = None
      else:
          self.Pi_current = self.Pi_root = Pi_struct(max_var1 * 2, nrepeat, 0, file_no, tau)
          self.Pi_current.add_state(self.state)
          self.min_step = resign
          self.max_step = 0
          self.resign = resign
          self.phase = False
  \<close>
  The environment just built is the initial outside state \<open>w\<close>. In the first branch the
  attributes the source leaves unset hold fixed values that nothing reads.
\<close>

definition MCT_init ::
  "'w outside \<Rightarrow> 'w \<Rightarrow> nat \<Rightarrow> nat \<Rightarrow> int \<Rightarrow> (int \<Rightarrow> real) \<Rightarrow> int \<Rightarrow> error + 'w MCT"
where
  "MCT_init env w file_no0 max_var1 nrepeat tau0 resign0 =
     (case resetAt env file_no0 w of
        (None, w') \<Rightarrow>
          Inr \<lparr>world = w', file_no = file_no0, state = None, Pi_root = None, Pi_current = [],
               min_step = 0, max_step = 0, resign = resign0, phase = None, traversals = []\<rparr>
      | (Some s, w') \<Rightarrow>
          (case add_state s (Pi_struct_init (max_var1 * 2) nrepeat 0 file_no0 tau0) of
             Inl e \<Rightarrow> Inl e
           | Inr r \<Rightarrow>
               Inr \<lparr>world = w', file_no = file_no0, state = Some s, Pi_root = Some r,
                    Pi_current = [], min_step = resign0, max_step = 0, resign = resign0,
                    phase = Some False, traversals = []\<rparr>))"

text \<open>
  What one stretch of \<^verbatim>\<open>get_state\<close> ends with: a \<^verbatim>\<open>return\<close> of the method (with the value
  returned), or falling through to the next statement.
\<close>

datatype 'w outcome = Return "ndarray3 option" "'w MCT" | Continue "'w MCT"

text \<open>
  \<^verbatim>\<open>
  needEnv = True
  while needEnv or needSim:
      if needEnv:
          if not self.phase:
              self.phase = True
              return self.state
          else:
              self.phase = False
      self.state, needEnv, needSim = self.env.simulate(softmax(pi_array), v_value)
  \<close>
  The environment decides how long this loop runs, so it is given fuel; \<open>None\<close> means the
  fuel ran out. \<^verbatim>\<open>needSim\<close> is unbound on entry and not read then.
\<close>

fun sim_loop ::
  "nat \<Rightarrow> 'w outside \<Rightarrow> real list \<Rightarrow> real \<Rightarrow> bool \<Rightarrow> bool \<Rightarrow> 'w MCT \<Rightarrow> (error + 'w outcome) option"
where
  "sim_loop 0 env pi_array v_value needEnv needSim m = None"
| "sim_loop (Suc k) env pi_array v_value needEnv needSim m =
     (if needEnv \<or> needSim then
        if needEnv \<and> phase m \<noteq> Some True then
          Some (Inr (Return (state m) (m\<lparr>phase := Some True\<rparr>)))
        else
          (case softmax pi_array of
             Inl e \<Rightarrow> Some (Inl e)
           | Inr sm \<Rightarrow>
               (case simulate env sm v_value (world m) of
                  ((s, needEnv', needSim'), w') \<Rightarrow>
                    sim_loop k env pi_array v_value needEnv' needSim'
                      (m\<lparr>phase := (if needEnv then Some False else phase m),
                         state := Some s, world := w'\<rparr>)))
      else Some (Inr (Continue m)))"

text \<open>
  \<^verbatim>\<open>
  if not self.Pi_current.evaluated:
      (the loop above)
      self.Pi_current.add_counts(self.env.get_visit_count())
  \<close>
\<close>

definition expand_current ::
  "nat \<Rightarrow> 'w outside \<Rightarrow> real list \<Rightarrow> real \<Rightarrow> 'w MCT \<Rightarrow> (error + 'w outcome) option"
where
  "expand_current k env pi_array v_value m =
     (case Pi_root m of
        None \<Rightarrow> Some (Inl AttributeError)
      | Some r \<Rightarrow>
      (case node_at r (Pi_current m) of
        None \<Rightarrow> Some (Inl KeyError)
      | Some cur \<Rightarrow>
      if evaluated (attrs cur) then Some (Inr (Continue m))
      else
      (case sim_loop k env pi_array v_value True False m of
        None \<Rightarrow> None
      | Some (Inl e) \<Rightarrow> Some (Inl e)
      | Some (Inr (Return x m')) \<Rightarrow> Some (Inr (Return x m'))
      | Some (Inr (Continue m1)) \<Rightarrow>
      (case get_visit_count env (world m1) of
        (counts, w1) \<Rightarrow>
      (case add_counts (random_choice env) counts cur w1 of
        Inl e \<Rightarrow> Some (Inl e)
      | Inr (cur', w2) \<Rightarrow>
          Some (Inr (Continue
            (m1\<lparr>world := w2, Pi_root := Some (replace_at r (Pi_current m) cur')\<rparr>))))))))"

text \<open>
  \<^verbatim>\<open>
  next_act = self.Pi_current.get_next()
  assert next_act >= 0, ...
  isDone, self.state = self.env.step(next_act)
  if isDone or self.Pi_current.level >= self.resign:
      if self.Pi_current.level < self.min_step: self.min_step = self.Pi_current.level
      if self.Pi_current.level > self.max_step: self.max_step = self.Pi_current.level
      if (self.Pi_current.set_next(self.Pi_current.level * self.Pi_current.nrepeats[next_act]) < 0):
          self.phase = None
          return None
      self.Pi_current = self.Pi_root
      self.state = self.env.resetAt(self.file_no)
  else:
      self.Pi_current = self.Pi_current.children[next_act]
      self.Pi_current.add_state(self.state)
  \<close>
\<close>

text \<open>The branch taken when the episode is done or the resign depth is reached; \<open>cur\<close> is
  the path of the current node and \<open>lv\<close> its level.\<close>

definition finish_episode ::
  "'w outside \<Rightarrow> 'w MCT \<Rightarrow> Pi_struct \<Rightarrow> Pi_fields \<Rightarrow> int \<Rightarrow> error + 'w outcome"
where
  "finish_episode env m1 r1 f1 next_act =
     (let lv = level f1;
          m2 = (if lv < min_step m1 then m1\<lparr>min_step := lv\<rparr> else m1);
          m3 = (if lv > max_step m2 then m2\<lparr>max_step := lv\<rparr> else m2)
      in
      case nrepeats f1 of
        None \<Rightarrow> Inl AttributeError
      | Some nr \<Rightarrow>
          (case np_get nr next_act of
             Inl e \<Rightarrow> Inl e
           | Inr rep \<Rightarrow>
               (case set_next r1 (Pi_current m1) (lv * rep) of
                  Inl e \<Rightarrow> Inl e
                | Inr (res, r2, calls) \<Rightarrow>
                    if res < 0 then
                      Inr (Return None
                        (m3\<lparr>Pi_root := Some r2, traversals := traversals m3 @ [Traversal (Pi_current m1) next_act rep calls],
                            phase := None\<rparr>))
                    else
                      (case resetAt env (file_no m3) (world m3) of
                         (s0, w2) \<Rightarrow>
                           Inr (Continue
                             (m3\<lparr>Pi_root := Some r2, traversals := traversals m3 @ [Traversal (Pi_current m1) next_act rep calls],
                                 Pi_current := [], state := s0, world := w2\<rparr>))))))"

text \<open>The other branch: the current node becomes the child for the action taken.\<close>

definition descend ::
  "'w MCT \<Rightarrow> Pi_struct \<Rightarrow> Pi_struct \<Rightarrow> ndarray3 \<Rightarrow> int \<Rightarrow> error + 'w outcome"
where
  "descend m1 r1 cur s next_act =
     (case map_of (children cur) (nat next_act) of
        None \<Rightarrow> Inl KeyError
      | Some child \<Rightarrow>
          (case add_state s child of
             Inl e \<Rightarrow> Inl e
           | Inr child' \<Rightarrow>
               Inr (Continue
                 (m1\<lparr>Pi_current := Pi_current m1 @ [nat next_act],
                     Pi_root := Some (replace_at r1 (Pi_current m1 @ [nat next_act]) child')\<rparr>))))"

definition play_step :: "'w outside \<Rightarrow> 'w MCT \<Rightarrow> error + 'w outcome" where
  "play_step env m =
     (case Pi_root m of
        None \<Rightarrow> Inl AttributeError
      | Some r \<Rightarrow>
          (case node_at r (Pi_current m) of
             None \<Rightarrow> Inl KeyError
           | Some cur \<Rightarrow>
               (case get_next (attrs cur) of
                  Inl e \<Rightarrow> Inl e
                | Inr (next_act, f1) \<Rightarrow>
                    if \<not> next_act \<ge> 0 then Inl AssertionError
                    else
                      (case step env next_act (world m) of
                         ((isDone, s), w1) \<Rightarrow>
                           (let cur1 = Pi_struct f1 (children cur);
                                r1 = replace_at r (Pi_current m) cur1;
                                m1 = m\<lparr>world := w1, state := Some s, Pi_root := Some r1\<rparr>
                            in
                            if isDone \<or> level f1 \<ge> resign m1
                            then finish_episode env m1 r1 f1 next_act
                            else descend m1 r1 cur1 s next_act)))))"

text \<open>
  \<^verbatim>\<open>
  def get_state(self, pi_array, v_value):
      if self.phase is None:
          return None
      while True:
          (expand the current node if needed, then play one step)
  \<close>
  The \<^verbatim>\<open>while True\<close> loop is given fuel as well. The result is the value returned with
  the driver after the call, an exception, or \<open>None\<close> when the fuel ran out.
\<close>

fun get_state_loop ::
  "nat \<Rightarrow> 'w outside \<Rightarrow> real list \<Rightarrow> real \<Rightarrow> 'w MCT \<Rightarrow> (error + ndarray3 option \<times> 'w MCT) option"
where
  "get_state_loop 0 env pi_array v_value m = None"
| "get_state_loop (Suc k) env pi_array v_value m =
     (case expand_current k env pi_array v_value m of
        None \<Rightarrow> None
      | Some (Inl e) \<Rightarrow> Some (Inl e)
      | Some (Inr (Return x m')) \<Rightarrow> Some (Inr (x, m'))
      | Some (Inr (Continue m1)) \<Rightarrow>
          (case play_step env m1 of
             Inl e \<Rightarrow> Some (Inl e)
           | Inr (Return x m') \<Rightarrow> Some (Inr (x, m'))
           | Inr (Continue m2) \<Rightarrow> get_state_loop k env pi_array v_value m2))"

definition get_state ::
  "nat \<Rightarrow> 'w outside \<Rightarrow> real list \<Rightarrow> real \<Rightarrow> 'w MCT \<Rightarrow> (error + ndarray3 option \<times> 'w MCT) option"
where
  "get_state k env pi_array v_value m =
     (if phase m = None then Some (Inr (None, m))
      else get_state_loop k env pi_array v_value m)"

text \<open>
  \<^verbatim>\<open>
  def report_performance(self):
      if self.Pi_root is None:
          return self.file_no, 1, 1
      return self.file_no, self.Pi_root.repeat, self.Pi_root.score
  \<close>
\<close>

definition report_performance :: "'w MCT \<Rightarrow> nat \<times> int \<times> int" where
  "report_performance m =
     (case Pi_root m of
        None \<Rightarrow> (file_no m, 1, 1)
      | Some r \<Rightarrow> (file_no m, repeat (attrs r), score (attrs r)))"

section \<open>Training-example emission\<close>

text \<open>
  \<^verbatim>\<open>
  def analyze_Pi_graph_dump(file_no, Pi_node, sl_Buffer, standard):
      if not Pi_node.evaluated: return
      for act in Pi_node.children:
          analyze_Pi_graph_dump(file_no, Pi_node.children[act], sl_Buffer, standard)
      av = Pi_node.score / Pi_node.repeat
      score = np.tanh((standard[1] - av) * 3.0 / standard[1])
      sl_Buffer.add(file_no, Pi_node.state, Pi_node.Pi, score, Pi_node.repeat)
  \<close>
  The buffer is the list of the tuples passed to \<^verbatim>\<open>sl_Buffer.add\<close>, in call order. The two
  divisions are real divisions; with a zero divisor numpy's scalars give \<open>nan\<close> or \<open>inf\<close>,
  where the model stops with \<open>NotANumber\<close>.
\<close>

type_synonym example = "nat \<times> matrix2 \<times> real list \<times> real \<times> int"

fun analyze_Pi_graph_dump ::
    "nat \<Rightarrow> Pi_struct \<Rightarrow> example list \<Rightarrow> int \<times> real \<times> int \<Rightarrow> error + example list"
  and dump_children ::
    "nat \<Rightarrow> (nat \<times> Pi_struct) list \<Rightarrow> example list \<Rightarrow> int \<times> real \<times> int \<Rightarrow> error + example list"
where
  "analyze_Pi_graph_dump fno (Pi_struct f ch) sl_Buffer standard =
     (if \<not> evaluated f then Inr sl_Buffer
      else
        (case dump_children fno ch sl_Buffer standard of
           Inl e \<Rightarrow> Inl e
         | Inr buf \<Rightarrow>
             if repeat f = 0 then Inl NotANumber
             else if fst (snd standard) = 0 then Inl NotANumber
             else
               (case pstate f of
                  None \<Rightarrow> Inl AttributeError
                | Some st \<Rightarrow>
                    (case Pi_vec f of
                       None \<Rightarrow> Inl AttributeError
                     | Some Pi \<Rightarrow>
                         Inr (buf @
                           [(fno, st, Pi,
                             tanh ((fst (snd standard) - real_of_int (score f) / real_of_int (repeat f))
                                   * 3 / fst (snd standard)),
                             repeat f)])))))"
| "dump_children fno [] sl_Buffer standard = Inr sl_Buffer"
| "dump_children fno (ac # cs) sl_Buffer standard =
     (case analyze_Pi_graph_dump fno (snd ac) sl_Buffer standard of
        Inl e \<Rightarrow> Inl e
      | Inr buf \<Rightarrow> dump_children fno cs buf standard)"

text \<open>
  \<^verbatim>\<open>
  def write_data_to_buffer(self, sl_Buffer):
      if self.Pi_root is None: return
      standard = (self.min_step, self.Pi_root.score / self.Pi_root.repeat, self.max_step)
      analyze_Pi_graph_dump(self.file_no, self.Pi_root, sl_Buffer, standard)
  \<close>
  The root's \<^verbatim>\<open>repeat\<close> is the Python integer given to the constructor; dividing by it
  when it is zero raises ZeroDivisionError.
\<close>

definition write_data_to_buffer :: "'w MCT \<Rightarrow> example list \<Rightarrow> error + example list" where
  "write_data_to_buffer m sl_Buffer =
     (case Pi_root m of
        None \<Rightarrow> Inr sl_Buffer
      | Some r \<Rightarrow>
          if repeat (attrs r) = 0 then Inl ZeroDivisionError
          else
            analyze_Pi_graph_dump (file_no m) r sl_Buffer
              (min_step m, real_of_int (score (attrs r)) / real_of_int (repeat (attrs r)),
               max_step m))"

text \<open>
  The spec's words for the emission: the nodes of the tree in post-order (the children of
  a node, in dictionary order, before the node), the example built from one node with
  \<open>averageOutcome = accumulatedScore / repeatBudget\<close> and
  \<open>score = tanh (3 * (meanScale - averageOutcome) / meanScale)\<close>, and the examples of the
  expanded nodes in that order.
\<close>

fun postorder :: "Pi_struct \<Rightarrow> Pi_struct list" where
  "postorder (Pi_struct f ch) = concat (map (\<lambda>ac. postorder (snd ac)) ch) @ [Pi_struct f ch]"

definition example_spec :: "nat \<Rightarrow> real \<Rightarrow> Pi_struct \<Rightarrow> example" where
  "example_spec problemId meanScale n =
     (let averageOutcome = real_of_int (score (attrs n)) / real_of_int (repeat (attrs n))
      in (problemId, the (pstate (attrs n)), the (Pi_vec (attrs n)),
          tanh (3 * (meanScale - averageOutcome) / meanScale), repeat (attrs n)))"

definition emission_spec :: "nat \<Rightarrow> Pi_struct \<Rightarrow> example list" where
  "emission_spec problemId r =
     map (example_spec problemId (real_of_int (score (attrs r)) / real_of_int (repeat (attrs r))))
       (filter (\<lambda>n. evaluated (attrs n)) (postorder r))"

text \<open>The shape of the trees the driver builds, as far as the emission depends on it: a
  node that is not expanded has no children, and an expanded node has a non-zero repeat
  budget, a cached state and a policy.\<close>

definition emittable :: "Pi_struct \<Rightarrow> bool" where
  "emittable r =
     (\<forall>n\<in>set (postorder r).
        (if evaluated (attrs n)
         then repeat (attrs n) \<noteq> 0 \<and> pstate (attrs n) \<noteq> None \<and> Pi_vec (attrs n) \<noteq> None
         else children n = []))"

section \<open>Notions used in the statements\<close>

text \<open>An action can be explored from a node when its repeat budget is positive and the
  validity mask holds for it.\<close>

definition actionable :: "int list \<Rightarrow> bool list \<Rightarrow> nat \<Rightarrow> bool" where
  "actionable nr iv i = (0 < nr ! i \<and> iv ! i)"

text \<open>A caller of the driver: it calls \<^verbatim>\<open>get_state\<close> once for each pair of evaluator
  outputs in the list, each call with fuel \<open>k\<close>, and collects the values returned.\<close>

fun get_state_calls ::
  "nat \<Rightarrow> 'w outside \<Rightarrow> (real list \<times> real) list \<Rightarrow> 'w MCT
     \<Rightarrow> (error + ndarray3 option list \<times> 'w MCT) option"
where
  "get_state_calls k env [] m = Some (Inr ([], m))"
| "get_state_calls k env (pv # pvs) m =
     (case get_state k env (fst pv) (snd pv) m of
        None \<Rightarrow> None
      | Some (Inl e) \<Rightarrow> Some (Inl e)
      | Some (Inr (x, m')) \<Rightarrow>
          (case get_state_calls k env pvs m' of
             None \<Rightarrow> None
           | Some (Inl e) \<Rightarrow> Some (Inl e)
           | Some (Inr (xs, m'')) \<Rightarrow> Some (Inr (x # xs, m''))))"

text \<open>Concrete values for the instances of the theorems: an expanded node of an action
  space of size three, and an outside world without state whose one problem is solved by
  simplification.\<close>

definition node3 :: Pi_fields where
  "node3 = \<lparr>psize = 3, repeat = 2, level = 0, pfile_no = 0, tau = (\<lambda>l. 1), pnext = 0, score = 0,
     evaluated = True, isValid = Some [True, False, True], pstate = None,
     Pi_vec = None, nrepeats = Some [0, 5, 2]\<rparr>"

definition obs1 :: ndarray3 where
  "obs1 = \<lparr>dim0 = 1, dim1 = 1, dim2 = 2, cells = [1, 0]\<rparr>"

definition solved_env :: "unit outside" where
  "solved_env =
     \<lparr>resetAt = (\<lambda>n w. (None, w)),
      simulate = (\<lambda>p v w. ((obs1, False, False), w)),
      get_visit_count = (\<lambda>w. ([], w)),
      step = (\<lambda>a w. ((True, obs1), w)),
      random_choice = (\<lambda>n r p w. (Inr [], w))\<rparr>"

definition solved_mct :: "unit MCT" where
  "solved_mct = \<lparr>world = (), file_no = 7, state = None, Pi_root = None, Pi_current = [],
       min_step = 0, max_step = 0, resign = 1000000, phase = None, traversals = []\<rparr>"

text \<open>The scenario of the spec: two actions, both valid, four repeats, visit counts
  \<open>[3, 1]\<close>, temperature 1, and a sample that draws action 0 three times and action 1 once.\<close>

definition tau1 :: "int \<Rightarrow> real" where
  "tau1 = (\<lambda>l. 1)"

definition sample_0100 :: "unit chooser" where
  "sample_0100 = (\<lambda>n r p w. (Inr [0, 1, 0, 0], w))"

definition root4 :: Pi_struct where
  "root4 = Pi_struct
     \<lparr>psize = 2, repeat = 4, level = 0, pfile_no = 0, tau = tau1, pnext = 0, score = 0,
      evaluated = False, isValid = Some [True, True],
      pstate = Some \<lparr>nrows = 1, ncols = 2, entries = [1, 1]\<rparr>,
      Pi_vec = None, nrepeats = None\<rparr> []"

definition root4_expanded :: Pi_struct where
  "root4_expanded = Pi_struct
     \<lparr>psize = 2, repeat = 4, level = 0, pfile_no = 0, tau = tau1, pnext = 0, score = 0,
      evaluated = True, isValid = Some [True, True],
      pstate = Some \<lparr>nrows = 1, ncols = 2, entries = [1, 1]\<rparr>,
      Pi_vec = Some [3 / 4, 1 / 4], nrepeats = Some [3, 1]\<rparr>
     [(0, Pi_struct_init 2 3 1 0 tau1), (1, Pi_struct_init 2 1 1 0 tau1)]"

text \<open>The examples of the expanded nodes of a subtree, in post-order, for a given mean
  scale.\<close>

definition emitted :: "nat \<Rightarrow> real \<Rightarrow> Pi_struct \<Rightarrow> example list" where
  "emitted fno mean n = map (example_spec fno mean) (filter (\<lambda>x. evaluated (attrs x)) (postorder n))"

text \<open>
  A scripted outside world for the scenarios: its state is the list of the actions
  stepped since the last reset; every observation is \<open>obs1\<close> (two actions, the first valid); a simulation never
  asks for more; the visit counts are \<open>[1, 0]\<close>; the episode is done at the \<open>d\<close>-th step;
  every sample drawn is the given list.
\<close>

definition scripted_env :: "nat \<Rightarrow> int list \<Rightarrow> int list outside" where
  "scripted_env d sample =
     \<lparr>resetAt = (\<lambda>n w. (Some obs1, [])),
      simulate = (\<lambda>p v w. ((obs1, False, False), w)),
      get_visit_count = (\<lambda>w. ([1, 0], w)),
      step = (\<lambda>a w. ((d \<le> length w + 1, obs1), w @ [a])),
      random_choice = (\<lambda>n r p w. (Inr sample, w))\<rparr>"

text \<open>The nodes and drivers that the scripted runs pass through: a node of the scripted
  problem with level \<open>lv\<close>, repeat budget \<open>R\<close>, expanded or not, cursor \<open>nx\<close>, score \<open>sc\<close> and
  children \<open>ch\<close>; and a driver over such a tree.\<close>

definition script_node ::
  "int \<Rightarrow> int \<Rightarrow> bool \<Rightarrow> nat \<Rightarrow> int \<Rightarrow> (nat \<times> Pi_struct) list \<Rightarrow> Pi_struct"
where
  "script_node lv R ev nx sc ch =
     Pi_struct
       \<lparr>psize = 2, repeat = R, level = lv, pfile_no = 7, tau = tau1, pnext = nx, score = sc,
        evaluated = ev, isValid = Some [True, False],
        pstate = Some \<lparr>nrows = 1, ncols = 2, entries = [1, 0]\<rparr>,
        Pi_vec = (if ev then Some [1, 0] else None),
        nrepeats = (if ev then Some [R, 0] else None)\<rparr> ch"

definition script_mct ::
  "int list \<Rightarrow> bool option \<Rightarrow> nat list \<Rightarrow> Pi_struct \<Rightarrow> int \<Rightarrow> int \<Rightarrow> traversal list
     \<Rightarrow> int list MCT"
where
  "script_mct w ph cur r mn mx adv =
     \<lparr>world = w, file_no = 7, state = Some obs1, Pi_root = Some r, Pi_current = cur,
      min_step = mn, max_step = mx, resign = 1000000, phase = ph, traversals = adv\<rparr>"

chapter \<open>Verified properties\<close>

section \<open>The histogram is total on its domain and counts occurrences\<close>


lemma count_loop_append:
  "count_loop a (is @ js) st =
     (case count_loop a is st of Inl e \<Rightarrow> Inl e | Inr st' \<Rightarrow> count_loop a js st')"
  by (induction "is" arbitrary: st) (auto split: sum.splits)

lemma count_loop_snoc:
  "count_loop a (is @ [k]) st =
     (case count_loop a is st of Inl e \<Rightarrow> Inl e | Inr st' \<Rightarrow> count_body a k st')"
  by (simp add: count_loop_append split: sum.splits)

lemma np_set_ok:
  "0 \<le> i \<Longrightarrow> i < int (length xs) \<Longrightarrow> np_set xs i v = Inr (xs[nat i := v])"
  by (simp add: np_set_def np_index_def)

lemma np_set_Inr_iff:
  "0 \<le> i \<Longrightarrow> np_set xs i v = Inr ys \<longleftrightarrow> (i < int (length xs) \<and> ys = xs[nat i := v])"
  by (auto simp: np_set_def np_index_def Let_def)

lemma np_get_nat: "k < length xs \<Longrightarrow> np_get xs (int k) = Inr (xs ! k)"
  by (simp add: np_get_def np_index_def)

lemma bounds_inv_step:
  assumes "bounds_inv a nact k st" "k < length a" "count_body a k st = Inr st'"
  shows "bounds_inv a nact (Suc k) st'"
  using assms
  by (auto simp: bounds_inv_def count_body_def np_get_nat np_set_Inr_iff less_Suc_eq
      split: prod.splits sum.splits if_splits)

lemma bounds_inv_loop:
  "k \<le> length a \<Longrightarrow> count_loop a [0..<k] (replicate nact 0, 0, 0) = Inr st
     \<Longrightarrow> bounds_inv a nact k st"
proof (induction k arbitrary: st)
  case 0
  then show ?case by (auto simp: bounds_inv_def)
next
  case (Suc k)
  from Suc.prems(2) obtain st0 where
    l: "count_loop a [0..<k] (replicate nact 0, 0, 0) = Inr st0" and b: "count_body a k st0 = Inr st"
    by (auto simp: count_loop_snoc split: sum.splits)
  from Suc.IH [OF _ l] Suc.prems(1) have "bounds_inv a nact k st0" by simp
  with b Suc.prems(1) show ?case by (intro bounds_inv_step) auto
qed

lemma get_nrepeat_count_Inr_D:
  assumes "get_nrepeat_count action nact = Inr c"
  shows "0 < nact \<and> (\<forall>x\<in>set action. x < int nact)"
proof -
  let ?a = "sort action"
  from assms obtain counts start base where
    l: "count_loop ?a [0..<length ?a] (replicate nact 0, 0, 0) = Inr (counts, start, base)"
    and s: "np_set counts base (int (length ?a) - start) = Inr c"
    by (auto simp: get_nrepeat_count_def Let_def split: sum.splits prod.splits)
  from bounds_inv_loop [OF _ l] have inv: "bounds_inv ?a nact (length ?a) (counts, start, base)"
    by simp
  then have len: "length counts = nact" and b0: "0 \<le> base" and le: "\<forall>j<length ?a. ?a ! j \<le> base"
    by (auto simp: bounds_inv_def)
  from s b0 len have lt: "base < int nact" by (simp add: np_set_Inr_iff)
  have "\<forall>x\<in>set ?a. x \<le> base" using le by (metis in_set_conv_nth)
  with lt b0 show ?thesis by auto
qed

lemma safe_inv_step:
  assumes "safe_inv nact st" "k < length a" "\<forall>x\<in>set a. x < int nact"
  shows "\<exists>st'. count_body a k st = Inr st' \<and> safe_inv nact st'"
  using assms
  by (auto simp: safe_inv_def count_body_def np_get_nat np_set_ok
      split: prod.splits)

lemma safe_inv_loop:
  assumes "0 < nact" "\<forall>x\<in>set a. x < int nact"
  shows "k \<le> length a \<Longrightarrow>
     \<exists>st. count_loop a [0..<k] (replicate nact 0, 0, 0) = Inr st \<and> safe_inv nact st"
proof (induction k)
  case 0
  with assms show ?case by (simp add: safe_inv_def)
next
  case (Suc k)
  then obtain st0 where
    l: "count_loop a [0..<k] (replicate nact 0, 0, 0) = Inr st0" and i: "safe_inv nact st0"
    by auto
  from safe_inv_step [OF i _ assms(2), of k] Suc.prems obtain st' where
    "count_body a k st0 = Inr st'" "safe_inv nact st'" by auto
  with l show ?case by (simp add: count_loop_snoc)
qed

lemma get_nrepeat_count_Inr_I:
  assumes "0 < nact" "\<forall>x\<in>set action. x < int nact"
  shows "\<exists>c. get_nrepeat_count action nact = Inr c"
proof -
  let ?a = "sort action"
  from assms(2) have "\<forall>x\<in>set ?a. x < int nact" by simp
  from safe_inv_loop [OF assms(1) this, of "length ?a"] obtain counts start base where
    l: "count_loop ?a [0..<length ?a] (replicate nact 0, 0, 0) = Inr (counts, start, base)"
    and i: "safe_inv nact (counts, start, base)"
    by (cases) auto
  then show ?thesis
    by (auto simp: get_nrepeat_count_def Let_def safe_inv_def np_set_Inr_iff)
qed


lemma length_filter_less_eq:
  "\<forall>x\<in>set xs. x \<le> (b::int) \<Longrightarrow>
     int (length xs) - int (length (filter (\<lambda>x. x < b) xs)) = int (count_list xs b)"
  by (induction xs) auto

lemma count_list_0_if_all_le:
  "\<forall>x\<in>set xs. x \<le> (b::int) \<Longrightarrow> b < c \<Longrightarrow> count_list xs c = 0"
  by (induction xs) auto

lemma filter_less_all:
  "\<forall>x\<in>set xs. x < (b::int) \<Longrightarrow> filter (\<lambda>x. x < b) xs = xs"
  by (induction xs) auto

lemma hist_inv_step:
  assumes inv: "hist_inv a nact k st" and k: "k < length a" and srt: "sorted a"
    and nn: "\<forall>x\<in>set a. 0 \<le> x" and body: "count_body a k st = Inr st'"
  shows "hist_inv a nact (Suc k) st'"
proof -
  obtain counts start base where st: "st = (counts, start, base)" by (cases st) auto
  let ?x = "a ! k"
  have tk: "take (Suc k) a = take k a @ [?x]" using k by (simp add: take_Suc_conv_app_nth)
  from inv st have len: "length counts = nact" and b0: "0 \<le> base"
    and start: "start = int (length (filter (\<lambda>x. x < base) (take k a)))"
    and le: "\<forall>x\<in>set (take k a). x \<le> base"
    and mem: "base = 0 \<or> base \<in> set (take k a)"
    and cnt: "\<forall>b<nact. counts ! b =
           (if int b < base then int (count_list (take k a) (int b)) else 0)"
    by (auto simp: hist_inv_def)
  have lk: "length (take k a) = k" using k by simp
  show ?thesis
  proof (cases "?x > base")
    case True
    from body st True k obtain counts' where
      w: "np_set counts base (int k - start) = Inr counts'" and st': "st' = (counts', int k, ?x)"
      by (auto simp: count_body_def np_get_nat split: sum.splits)
    from w b0 have bl: "base < int (length counts)" and c': "counts' = counts[nat base := int k - start]"
      by (simp_all add: np_set_Inr_iff)
    have val: "int k - start = int (count_list (take k a) base)"
      using length_filter_less_eq [OF le] lk start by simp
    have allless: "\<forall>y\<in>set (take k a). y < ?x" using le True by auto
    have f1: "filter (\<lambda>y. y < ?x) (take (Suc k) a) = take k a"
      using filter_less_all [OF allless] by (simp add: tk)
    have "\<forall>b<nact. counts' ! b =
           (if int b < ?x then int (count_list (take (Suc k) a) (int b)) else 0)"
    proof (intro allI impI)
      fix b assume b: "b < nact"
      show "counts' ! b = (if int b < ?x then int (count_list (take (Suc k) a) (int b)) else 0)"
      proof (cases "b = nat base")
        case True
        with b0 have "int b = base" by simp
        with True b len c' val \<open>?x > base\<close> show ?thesis by (simp add: tk)
      next
        case False
        then have nb: "int b \<noteq> base" using b0 by auto
        from False c' have eq: "counts' ! b = counts ! b" by simp
        show ?thesis
        proof (cases "int b < base")
          case True
          with eq cnt b \<open>?x > base\<close> show ?thesis by (simp add: tk)
        next
          case False
          with nb have gt: "base < int b" by simp
          from count_list_0_if_all_le [OF le gt] eq cnt b False
          show ?thesis by (simp add: tk)
        qed
      qed
    qed
    with len c' b0 True f1 lk allless st' show ?thesis
      by (auto simp: hist_inv_def tk)
  next
    case False
    with body st k have st': "st' = st" by (auto simp: count_body_def np_get_nat)
    have "?x = base"
    proof (cases "base = 0")
      case True
      with nn k False show ?thesis by (metis nth_mem order_antisym not_less)
    next
      case False
      with mem obtain j where j: "j < k" "a ! j = base"
        using k by (auto simp: in_set_conv_nth)
      with srt k have "base \<le> ?x" by (metis sorted_nth_mono less_imp_le)
      with \<open>\<not> base < ?x\<close> show ?thesis by simp
    qed
    with len b0 start le mem cnt st st' show ?thesis
      by (auto simp: hist_inv_def tk)
  qed
qed

lemma hist_inv_loop:
  assumes "sorted a" "\<forall>x\<in>set a. 0 \<le> x"
  shows "k \<le> length a \<Longrightarrow> count_loop a [0..<k] (replicate nact 0, 0, 0) = Inr st
     \<Longrightarrow> hist_inv a nact k st"
proof (induction k arbitrary: st)
  case 0
  then show ?case by (auto simp: hist_inv_def)
next
  case (Suc k)
  from Suc.prems(2) obtain st0 where
    l: "count_loop a [0..<k] (replicate nact 0, 0, 0) = Inr st0" and b: "count_body a k st0 = Inr st"
    by (auto simp: count_loop_snoc split: sum.splits)
  from Suc.IH [OF _ l] Suc.prems(1) have "hist_inv a nact k st0" by simp
  with b Suc.prems(1) assms show ?case by (intro hist_inv_step) auto
qed

lemma count_list_insort: "count_list (insort x xs) y = count_list (x # xs) (y::int)"
  by (induction xs) auto

lemma count_list_sort: "count_list (sort xs) y = count_list xs (y::int)"
  by (induction xs) (auto simp: count_list_insort)

lemma get_nrepeat_count_hist:
  assumes r: "get_nrepeat_count action nact = Inr c" and nn: "\<forall>x\<in>set action. 0 \<le> x"
  shows "length c = nact \<and> (\<forall>b<nact. c ! b = int (count_list action (int b)))"
proof -
  let ?a = "sort action"
  let ?n = "length ?a"
  from r obtain counts start base where
    l: "count_loop ?a [0..<?n] (replicate nact 0, 0, 0) = Inr (counts, start, base)"
    and s: "np_set counts base (int ?n - start) = Inr c"
    by (auto simp: get_nrepeat_count_def Let_def split: sum.splits prod.splits)
  have "hist_inv ?a nact ?n (counts, start, base)"
    using nn by (intro hist_inv_loop [OF _ _ _ l]) auto
  then have len: "length counts = nact" and b0: "0 \<le> base"
    and start: "start = int (length (filter (\<lambda>x. x < base) ?a))"
    and le: "\<forall>x\<in>set ?a. x \<le> base"
    and cnt: "\<forall>b<nact. counts ! b =
           (if int b < base then int (count_list ?a (int b)) else 0)"
    by (auto simp: hist_inv_def)
  from s b0 have bl: "base < int (length counts)" and c: "c = counts[nat base := int ?n - start]"
    by (simp_all add: np_set_Inr_iff)
  have val: "int ?n - start = int (count_list ?a base)"
    using length_filter_less_eq [OF le] start by simp
  have "\<forall>b<nact. c ! b = int (count_list ?a (int b))"
  proof (intro allI impI)
    fix b assume b: "b < nact"
    show "c ! b = int (count_list ?a (int b))"
    proof (cases "b = nat base")
      case True
      with b0 have "int b = base" by simp
      with True b len c val show ?thesis by simp
    next
      case False
      then have nb: "int b \<noteq> base" using b0 by auto
      from False c have eq: "c ! b = counts ! b" by simp
      show ?thesis
      proof (cases "int b < base")
        case True
        with eq cnt b show ?thesis by simp
      next
        case False
        with nb have gt: "base < int b" by simp
        from count_list_0_if_all_le [OF le gt] eq cnt b False
        show ?thesis by simp
      qed
    qed
  qed
  with c len show ?thesis by (simp add: count_list_sort)
qed

lemma sum_count_list_range:
  "\<forall>x\<in>set xs. 0 \<le> x \<and> x < int n \<Longrightarrow>
     (\<Sum>b<n. count_list xs (int b)) = length xs"
proof (induction xs)
  case Nil
  then show ?case by simp
next
  case (Cons x xs)
  then have x: "0 \<le> x" "x < int n" by auto
  have "(\<Sum>b<n. count_list (x # xs) (int b)) =
        (\<Sum>b<n. count_list xs (int b)) + (\<Sum>b<n. if x = int b then 1 else 0)"
    unfolding sum.distrib [symmetric] by (intro sum.cong) auto
  also have "(\<Sum>b<n. if x = int b then 1 else 0) = (\<Sum>b<n. if b = nat x then 1 else (0::nat))"
    using x by (intro sum.cong) auto
  also have "\<dots> = 1" using x by simp
  finally show ?case using Cons by simp
qed

lemma count_body_error: "count_body a k st = Inl e \<Longrightarrow> e = IndexError"
  by (auto simp: count_body_def np_get_def np_set_def np_index_def Let_def split: prod.splits sum.splits if_splits)

lemma count_loop_error: "count_loop a is st = Inl e \<Longrightarrow> e = IndexError"
  by (induction "is" arbitrary: st) (auto split: sum.splits dest: count_body_error)

lemma get_nrepeat_count_error: "get_nrepeat_count action nact = Inl e \<Longrightarrow> e = IndexError"
  by (auto simp: get_nrepeat_count_def np_set_def np_index_def Let_def
      split: prod.splits sum.splits if_splits dest: count_loop_error)

lemma get_nrepeat_count_Nil: "0 < nact \<Longrightarrow> get_nrepeat_count [] nact = Inr (replicate nact 0)"
  by (cases nact) (simp_all add: get_nrepeat_count_def np_set_def np_index_def)

text \<open>
  Claim C6, amended. For a non-empty action space \<open>nact > 0\<close> and every input array whose
  entries lie in \<open>[0, nact)\<close> (in any order, with repetitions), \<^verbatim>\<open>get_nrepeat_count\<close>
  returns a vector of length \<open>nact\<close> whose entries sum to the length of the input and whose
  entry \<open>a\<close> is the number of occurrences of \<open>a\<close> in the input.
\<close>

theorem get_nrepeat_count_histogram:
  assumes "0 < nact" and "\<forall>x\<in>set action. 0 \<le> x \<and> x < int nact"
  shows "\<exists>counts. get_nrepeat_count action nact = Inr counts \<and>
           length counts = nact \<and>
           sum_list counts = int (length action) \<and>
           (\<forall>a<nact. counts ! a = int (count_list action (int a)))"
proof -
  from assms have "\<forall>x\<in>set action. x < int nact" by simp
  from get_nrepeat_count_Inr_I [OF assms(1) this] obtain c where
    c: "get_nrepeat_count action nact = Inr c" by blast
  from assms have "\<forall>x\<in>set action. 0 \<le> x" by simp
  from get_nrepeat_count_hist [OF c this] have len: "length c = nact"
    and cnt: "\<forall>b<nact. c ! b = int (count_list action (int b))" by simp_all
  have "sum_list c = (\<Sum>b<nact. c ! b)"
    using len by (simp add: sum_list_sum_nth atLeast0LessThan)
  also have "\<dots> = (\<Sum>b<nact. int (count_list action (int b)))"
    using cnt by (intro sum.cong) auto
  also have "\<dots> = int (\<Sum>b<nact. count_list action (int b))" by simp
  also have "\<dots> = int (length action)"
    using sum_count_list_range [OF assms(2)] by simp
  finally show ?thesis using c len cnt by simp
qed

theorem get_nrepeat_count_histogram_witness:
  "(0::nat) < 3 \<and> get_nrepeat_count [2, 0, 2, 1, 2] 3 = Inr [1, 1, 3]"
proof -
  have e: "get_nrepeat_count [2, 0, 2, 1, 2] 3 = Inr [1, 1, 3]" by code_simp
  from get_nrepeat_count_histogram [of 3 "[2, 0, 2, 1, 2]"] e show ?thesis by simp
qed

text \<open>
  Claim C6 as stated fails on the empty action space: the empty input satisfies the
  precondition, and the final write \<^verbatim>\<open>counts[base]\<close> with \<open>base = 0\<close> is out of bounds.
\<close>

theorem get_nrepeat_count_empty_space_counterexample:
  "get_nrepeat_count [] 0 = Inl IndexError"
  by (simp add: get_nrepeat_count_def np_set_def np_index_def)

text \<open>
  Claim C10, amended. \<^verbatim>\<open>get_nrepeat_count(action, nact)\<close> returns normally exactly when
  \<open>nact > 0\<close> and every element of the input is below \<open>nact\<close>; the only failure is the
  IndexError of the write \<^verbatim>\<open>counts[base]\<close>; on the empty input with \<open>nact > 0\<close> it returns
  the all-zero vector. Negative elements never reach \<open>base\<close> and raise nothing.
\<close>

theorem get_nrepeat_count_returns_iff:
  "((\<exists>counts. get_nrepeat_count action nact = Inr counts) \<longleftrightarrow>
      (0 < nact \<and> (\<forall>x\<in>set action. x < int nact))) \<and>
   (\<forall>e. get_nrepeat_count action nact = Inl e \<longrightarrow> e = IndexError) \<and>
   (0 < nact \<longrightarrow> get_nrepeat_count [] nact = Inr (replicate nact 0))"
  using get_nrepeat_count_Inr_D [of action nact] get_nrepeat_count_Inr_I [of nact action]
    get_nrepeat_count_error [of action nact] get_nrepeat_count_Nil [of nact]
  by blast

theorem get_nrepeat_count_returns_iff_witness:
  "get_nrepeat_count [- 4, 0, 1] 3 = Inr [2, 1, 0] \<and>
   get_nrepeat_count [0, 3, 1] 3 = Inl IndexError \<and>
   get_nrepeat_count [] 2 = Inr [0, 0]"
proof -
  have e1: "get_nrepeat_count [- 4, 0, 1] 3 = Inr [2, 1, 0]" by code_simp
  have e2: "get_nrepeat_count [0, 3, 1] 3 = Inl IndexError" by code_simp
  from get_nrepeat_count_returns_iff [of "[]" 2]
    get_nrepeat_count_returns_iff [of "[- 4, 0, 1]" 3] e1 e2 show ?thesis
    by (simp add: numeral_2_eq_2)
qed

text \<open>
  Claim C10 as stated fails in both directions: the empty input on the empty action space
  meets the precondition and raises; the input \<open>[-1]\<close> breaks it and returns normally.
\<close>

theorem get_nrepeat_count_domain_counterexample:
  "get_nrepeat_count [] 0 = Inl IndexError \<and> get_nrepeat_count [- 1] 1 = Inr [1]"
  by (simp add: get_nrepeat_count_def np_set_def np_index_def np_get_def count_body_def)

section \<open>Temperature sharpening is one exponentiation and a normalization\<close>

lemma np_div_sum_Inr: "sum_list v \<noteq> 0 \<Longrightarrow> np_div_sum v = Inr (map (\<lambda>x. x / sum_list v) v)"
  by (simp add: np_div_sum_def)

lemma sum_list_divide_const: "sum_list (map (\<lambda>x. f x / c) v) = sum_list (map f v) / (c::real)"
  by (induction v) (simp_all add: add_divide_distrib)

lemma sum_list_normalized:
  "sum_list (map f v) \<noteq> 0 \<Longrightarrow> sum_list (map (\<lambda>x. f x / sum_list (map f v)) v) = (1::real)"
  by (simp add: sum_list_divide_const)

lemma sum_list_pos:
  "\<forall>x\<in>set v. 0 \<le> f x \<Longrightarrow> \<exists>x\<in>set v. 0 < f x \<Longrightarrow> 0 < sum_list (map f v :: real list)"
proof (induction v)
  case Nil then show ?case by simp
next
  case (Cons a v)
  have nn: "0 \<le> sum_list (map f v)" using Cons.prems(1) by (intro sum_list_nonneg) auto
  show ?case
  proof (cases "0 < f a")
    case True with nn show ?thesis by simp
  next
    case False
    with Cons.prems have "\<exists>x\<in>set v. 0 < f x" "f a = 0" by (auto simp: order.order_iff_strict)
    with Cons show ?thesis by simp
  qed
qed

lemma np_power_nonneg: "0 \<le> x \<Longrightarrow> 0 < p \<Longrightarrow> np_power x p = Inr (x powr p)"
proof (cases "x = 0")
  case True
  assume "0 < p"
  then show ?thesis using True by (simp add: np_power_def)
next
  case False
  assume "0 \<le> x"
  with False have "0 < x" by simp
  then show ?thesis by (simp add: np_power_def)
qed

lemma np_power_all_nonneg:
  "\<forall>x\<in>set v. 0 \<le> x \<Longrightarrow> 0 < p \<Longrightarrow> np_power_all v p = Inr (map (\<lambda>x. x powr p) v)"
  by (induction v) (simp_all add: np_power_nonneg)

lemma powr_ten: "((x::real) powr q) ^ 10 = x powr (q * 10)"
proof (cases "x = 0")
  case True
  then show ?thesis by simp
next
  case False
  then have "0 < x powr q" by simp
  then have "(x powr q) ^ 10 = (x powr q) powr 10" by (simp only: powr_numeral)
  also have "\<dots> = x powr (q * 10)" by (simp only: powr_powr)
  finally show ?thesis .
qed

lemma get_PI_loop_scaled:
  assumes "\<forall>x\<in>set c0. 0 \<le> x" "\<exists>x\<in>set c0. 0 < x"
  shows "scaled_powers c0 q v \<Longrightarrow> 0 < q \<Longrightarrow> 0 < p \<Longrightarrow>
    \<exists>v' q' p'. get_PI_loop v p = Inr (v', p') \<and> scaled_powers c0 q' v' \<and> 0 < q' \<and> 0 < p' \<and> q' * p' = q * p"
proof (induction v p arbitrary: q rule: get_PI_loop.induct)
  case (1 counts p)
  show ?case
  proof (cases "10 \<le> p")
    case False
    with 1 show ?thesis by (subst get_PI_loop.simps) auto
  next
    case True
    from "1.prems"(1) obtain k where k: "0 < k" "counts = map (\<lambda>x. k * x powr q) c0"
      by (auto simp: scaled_powers_def)
    have pw: "map (\<lambda>x. x ^ 10) counts = map (\<lambda>x. k ^ 10 * x powr (q * 10)) c0"
      using k by (simp add: power_mult_distrib powr_ten)
    let ?S = "sum_list (map (\<lambda>x. k ^ 10 * x powr (q * 10)) c0)"
    from assms(2) obtain z where z: "z \<in> set c0" "0 < z" by blast
    have "0 < k ^ 10 * z powr (q * 10)" using z k(1) by simp
    with z have "\<exists>x\<in>set c0. 0 < k ^ 10 * x powr (q * 10)" by blast
    moreover have "\<forall>x\<in>set c0. 0 \<le> k ^ 10 * x powr (q * 10)" using k(1) by simp
    ultimately have Spos: "0 < ?S" by (rule sum_list_pos [rotated])
    let ?c' = "map (\<lambda>x. x / ?S) (map (\<lambda>x. k ^ 10 * x powr (q * 10)) c0)"
    have dv: "np_div_sum (map (\<lambda>x. x ^ 10) counts) = Inr ?c'"
      using Spos by (simp add: pw np_div_sum_def)
    have sc: "scaled_powers c0 (q * 10) ?c'"
      unfolding scaled_powers_def
      using Spos k(1) by (intro exI [of _ "k ^ 10 / ?S"]) simp
    from "1.IH" [OF True dv sc] "1.prems" True
    obtain v' q' p' where "get_PI_loop ?c' (p / 10) = Inr (v', p')" "scaled_powers c0 q' v'"
      "0 < q'" "0 < p'" "q' * p' = q * 10 * (p / 10)" by auto
    with dv True show ?thesis by (subst get_PI_loop.simps) auto
  qed
qed

text \<open>
  Claim C2. For every non-negative counts vector with positive sum and every temperature
  \<open>tau > 0\<close>, \<^verbatim>\<open>get_PI\<close> returns, in exact real arithmetic, the vector obtained by one
  exponentiation by \<open>1 / tau\<close> followed by normalization (\<open>sharpen_spec\<close>: each entry is
  \<open>c powr (1 / tau)\<close> divided by the sum of these powers), and that vector sums to 1.
\<close>

theorem get_PI_proportional:
  assumes nn: "\<forall>x\<in>set counts. 0 \<le> x" and pos: "0 < sum_list counts" and temp: "0 < temp"
  shows "get_PI counts temp = Inr (sharpen_spec counts temp) \<and> sum_list (sharpen_spec counts temp) = 1"
proof -
  let ?p = "1 / temp"
  have ex: "\<exists>x\<in>set counts. 0 < x"
  proof (rule ccontr)
    assume "\<not> ?thesis"
    with nn have "\<forall>x\<in>set counts. x = 0" by force
    then have "sum_list counts = 0" by (induction counts) auto
    with pos show False by simp
  qed
  let ?S = "sum_list counts"
  have d0: "np_div_sum counts = Inr (map (\<lambda>x. x / ?S) counts)"
    using pos by (simp add: np_div_sum_def)
  have sc0: "scaled_powers counts 1 (map (\<lambda>x. x / ?S) counts)"
    unfolding scaled_powers_def using pos nn
    by (intro exI [of _ "1 / ?S"]) simp
  from get_PI_loop_scaled [OF nn ex sc0, of ?p] temp
  obtain v' q' p' where l: "get_PI_loop (map (\<lambda>x. x / ?S) counts) ?p = Inr (v', p')"
    and sc: "scaled_powers counts q' v'" and q': "0 < q'" and p': "0 < p'" and qp: "q' * p' = ?p"
    by auto
  from sc obtain k where k: "0 < k" "v' = map (\<lambda>x. k * x powr q') counts"
    by (auto simp: scaled_powers_def)
  have nnv: "\<forall>x\<in>set v'. 0 \<le> x" using k by auto
  have pw: "np_power_all v' p' = Inr (map (\<lambda>x. x powr p') v')"
    using np_power_all_nonneg [OF nnv p'] .
  have eqP: "map (\<lambda>x. x powr p') v' = map (\<lambda>x. k powr p' * x powr ?p) counts"
    using k qp by (simp add: powr_mult powr_powr)
  let ?T = "sum_list (map (\<lambda>x. x powr ?p) counts)"
  from ex obtain z where z: "z \<in> set counts" "0 < z" by blast
  then have "\<exists>x\<in>set counts. 0 < x powr ?p" by (intro bexI [of _ z]) simp_all
  moreover have "\<forall>x\<in>set counts. 0 \<le> x powr ?p" by simp
  ultimately have Tpos: "0 < ?T" by (rule sum_list_pos [rotated])
  have kp: "0 < k powr p'" using k by (simp add: powr_gt_zero)
  have sumP: "sum_list (map (\<lambda>x. k powr p' * x powr ?p) counts) = k powr p' * ?T"
    by (simp add: sum_list_const_mult)
  have fin: "np_div_sum (map (\<lambda>x. x powr p') v') = Inr (sharpen_spec counts temp)"
    unfolding eqP np_div_sum_def sumP sharpen_spec_def using Tpos kp by simp
  have "sum_list (sharpen_spec counts temp) = 1"
    unfolding sharpen_spec_def using Tpos by (intro sum_list_normalized) simp
  with d0 l pw fin temp show ?thesis by (simp add: get_PI_def)
qed

theorem get_PI_proportional_witness:
  "get_PI [3, 1] 1 = Inr [3 / 4, 1 / 4] \<and> get_PI [1, 1] (1 / 20) = Inr [1 / 2, 1 / 2] \<and>
   sum_list (sharpen_spec [3, 1] 1) = 1"
proof -
  have s1: "sharpen_spec [3, 1] 1 = [3 / 4, 1 / 4]" by (simp add: sharpen_spec_def)
  have s2: "sharpen_spec [1, 1] (1 / 20) = [1 / 2, 1 / 2]" by (simp add: sharpen_spec_def)
  from get_PI_proportional [of "[3, 1]" 1] get_PI_proportional [of "[1, 1]" "1 / 20"] s1 s2
  show ?thesis by simp
qed

section \<open>The cursor of a node\<close>

lemma get_next_loop_spec:
  assumes "nrepeats f = Some nr" "isValid f = Some iv" "length nr = psize f" "length iv = psize f"
  shows "\<exists>j. get_next_loop f = Inr (f\<lparr>pnext := j\<rparr>) \<and> pnext f \<le> j \<and>
           (\<forall>i. pnext f \<le> i \<and> i < j \<longrightarrow> i < psize f \<and> \<not> actionable nr iv i) \<and>
           (j < psize f \<longrightarrow> actionable nr iv j) \<and>
           (psize f \<le> j \<longrightarrow> (\<forall>i. pnext f \<le> i \<and> i < psize f \<longrightarrow> \<not> actionable nr iv i))"
  using assms
proof (induction f rule: get_next_loop.induct)
  case (1 f)
  show ?case
  proof (cases "pnext f < psize f")
    case False
    then have "get_next_loop f = Inr (f\<lparr>pnext := pnext f\<rparr>)"
      by (subst get_next_loop.simps) simp
    with False show ?thesis by (intro exI [of _ "pnext f"]) auto
  next
    case True
    let ?i = "pnext f"
    let ?f' = "f\<lparr>pnext := ?i + 1\<rparr>"
    have gr: "np_get nr (int ?i) = Inr (nr ! ?i)" and gv: "np_get iv (int ?i) = Inr (iv ! ?i)"
      using True "1.prems" by (simp_all add: np_get_nat)
    show ?thesis
    proof (cases "actionable nr iv ?i")
      case act: True
      then have "get_next_loop f = Inr (f\<lparr>pnext := ?i\<rparr>)"
        using True "1.prems" gr gv
        by (subst get_next_loop.simps) (simp add: actionable_def)
      with act True show ?thesis by (intro exI [of _ ?i]) auto
    next
      case nact: False
      have step: "get_next_loop f = get_next_loop ?f'"
        using True "1.prems" gr gv nact
        by (subst get_next_loop.simps) (auto simp: actionable_def)
      have "\<exists>j. get_next_loop ?f' = Inr (?f'\<lparr>pnext := j\<rparr>) \<and> pnext ?f' \<le> j \<and>
           (\<forall>i. pnext ?f' \<le> i \<and> i < j \<longrightarrow> i < psize ?f' \<and> \<not> actionable nr iv i) \<and>
           (j < psize ?f' \<longrightarrow> actionable nr iv j) \<and>
           (psize ?f' \<le> j \<longrightarrow> (\<forall>i. pnext ?f' \<le> i \<and> i < psize ?f' \<longrightarrow> \<not> actionable nr iv i))"
      proof (cases "real_of_int (nr ! ?i) < 0.5")
        case True
        from "1.IH"(1) [OF \<open>?i < psize f\<close> "1.prems"(1) gr True] "1.prems"
        show ?thesis by simp
      next
        case False
        with nact have v: "\<not> iv ! ?i" by (auto simp: actionable_def)
        from "1.IH"(2) [OF \<open>?i < psize f\<close> "1.prems"(1) gr False "1.prems"(2) gv v] "1.prems"
        show ?thesis by simp
      qed
      then obtain j where j: "get_next_loop ?f' = Inr (f\<lparr>pnext := j\<rparr>)" "?i + 1 \<le> j"
        "\<forall>i. ?i + 1 \<le> i \<and> i < j \<longrightarrow> i < psize f \<and> \<not> actionable nr iv i"
        "j < psize f \<longrightarrow> actionable nr iv j"
        "psize f \<le> j \<longrightarrow> (\<forall>i. ?i + 1 \<le> i \<and> i < psize f \<longrightarrow> \<not> actionable nr iv i)"
        by auto
      have a: "\<forall>i. ?i \<le> i \<and> i < j \<longrightarrow> i < psize f \<and> \<not> actionable nr iv i"
      proof (intro allI impI)
        fix i assume i: "?i \<le> i \<and> i < j"
        show "i < psize f \<and> \<not> actionable nr iv i"
        proof (cases "i = ?i")
          case True with nact \<open>?i < psize f\<close> show ?thesis by simp
        next
          case False with i j(3) show ?thesis by auto
        qed
      qed
      have b: "psize f \<le> j \<longrightarrow> (\<forall>i. ?i \<le> i \<and> i < psize f \<longrightarrow> \<not> actionable nr iv i)"
      proof (intro allI impI)
        fix i assume p: "psize f \<le> j" and i: "?i \<le> i \<and> i < psize f"
        show "\<not> actionable nr iv i"
        proof (cases "i = ?i")
          case True with nact show ?thesis by simp
        next
          case False with i j(5) p show ?thesis by auto
        qed
      qed
      from step j(1,2,4) a b show ?thesis by (intro exI [of _ j]) auto
    qed
  qed
qed

text \<open>
  Claim C7. For every expanded node (\<^verbatim>\<open>nrepeats\<close> and \<^verbatim>\<open>isValid\<close> present, of length \<^verbatim>\<open>size\<close>),
  \<^verbatim>\<open>get_next\<close> moves the cursor to the smallest index \<open>j\<close> at or after it that is valid and has
  a positive repeat budget and returns \<open>j\<close>, or returns \<open>-1\<close> when no such index remains;
  every index it passes is invalid or has no repeat budget, nothing but the cursor
  changes, and a second call returns the same index and leaves the node as the first
  call left it.
\<close>

theorem get_next_smallest_and_idempotent:
  assumes "nrepeats f = Some nr" "isValid f = Some iv" "length nr = psize f" "length iv = psize f"
  shows "\<exists>j r. get_next f = Inr (r, f\<lparr>pnext := j\<rparr>) \<and> pnext f \<le> j \<and>
           (\<forall>i. pnext f \<le> i \<and> i < j \<longrightarrow> i < psize f \<and> \<not> actionable nr iv i) \<and>
           (if j < psize f then r = int j \<and> actionable nr iv j
            else r = - 1 \<and> (\<forall>i. pnext f \<le> i \<and> i < psize f \<longrightarrow> \<not> actionable nr iv i)) \<and>
           get_next (f\<lparr>pnext := j\<rparr>) = Inr (r, f\<lparr>pnext := j\<rparr>)"
proof -
  from get_next_loop_spec [OF assms] obtain j where
    l: "get_next_loop f = Inr (f\<lparr>pnext := j\<rparr>)" and le: "pnext f \<le> j"
    and skip: "\<forall>i. pnext f \<le> i \<and> i < j \<longrightarrow> i < psize f \<and> \<not> actionable nr iv i"
    and hit: "j < psize f \<longrightarrow> actionable nr iv j"
    and none: "psize f \<le> j \<longrightarrow> (\<forall>i. pnext f \<le> i \<and> i < psize f \<longrightarrow> \<not> actionable nr iv i)"
    by blast
  let ?g = "f\<lparr>pnext := j\<rparr>"
  let ?r = "if psize f \<le> j then - 1 else int j"
  have first: "get_next f = Inr (?r, ?g)" using l by (simp add: get_next_def)
  have again: "get_next_loop ?g = Inr ?g"
  proof (cases "j < psize f")
    case True
    with hit assms show ?thesis
      by (subst get_next_loop.simps) (simp add: np_get_nat actionable_def)
  next
    case False
    then show ?thesis by (subst get_next_loop.simps) simp
  qed
  then have second: "get_next ?g = Inr (?r, ?g)" by (simp add: get_next_def)
  from first second le skip hit none show ?thesis
    by (intro exI [of _ j] exI [of _ ?r]) auto
qed

theorem get_next_smallest_and_idempotent_witness:
  "get_next node3 = Inr (2, node3\<lparr>pnext := 2\<rparr>) \<and>
   get_next (node3\<lparr>pnext := 2\<rparr>) = Inr (2, node3\<lparr>pnext := 2\<rparr>) \<and>
   get_next (node3\<lparr>pnext := 3\<rparr>) = Inr (- 1, node3\<lparr>pnext := 3\<rparr>)"
proof -
  have a: "nrepeats node3 = Some [0, 5, 2]" "isValid node3 = Some [True, False, True]"
    "length [0, 5, 2 :: int] = psize node3" "length [True, False, True] = psize node3"
    by (simp_all add: node3_def)
  have l1: "get_next node3 = Inr (2, node3\<lparr>pnext := 2\<rparr>)"
    by (simp add: get_next_def node3_def get_next_loop.simps np_get_def np_index_def)
  have l3: "get_next (node3\<lparr>pnext := 3\<rparr>) = Inr (- 1, node3\<lparr>pnext := 3\<rparr>)"
    by (simp add: get_next_def node3_def get_next_loop.simps)
  from get_next_smallest_and_idempotent [OF a] l1 l3 show ?thesis by auto
qed

section \<open>Expansion of a node\<close>

lemma np_get_Inr_nat: "np_get xs (int i) = Inr x \<Longrightarrow> i < length xs \<and> x = xs ! i"
  by (auto simp: np_get_def np_index_def split: if_splits)

lemma add_children_map_of:
  "add_children f nr is ch = Inr ch' \<Longrightarrow>
     (\<forall>i\<in>set is. i < length nr) \<and>
     (\<forall>a. map_of ch' a =
        (if a \<in> set is \<and> 0 < nr ! a
         then Some (Pi_struct_init (psize f) (nr ! a) (level f + 1) (pfile_no f) (tau f))
         else map_of ch a))"
proof (induction "is" arbitrary: ch)
  case Nil
  then show ?case by simp
next
  case (Cons i "is")
  from Cons.prems obtain r where g: "np_get nr (int i) = Inr r"
    by (auto split: sum.splits)
  from np_get_Inr_nat [OF g] have i: "i < length nr" and r: "r = nr ! i" by simp_all
  show ?case
  proof (cases "real_of_int r > 0.5")
    case True
    then have pos: "0 < nr ! i" using r by simp
    let ?c = "Pi_struct_init (psize f) r (level f + 1) (pfile_no f) (tau f)"
    from Cons.prems g True have "add_children f nr is (AList.update i ?c ch) = Inr ch'" by simp
    from Cons.IH [OF this] i r pos show ?thesis
      by (auto simp: update_conv')
  next
    case False
    then have npos: "\<not> 0 < nr ! i" using r by simp
    from Cons.prems g False have "add_children f nr is ch = Inr ch'" by simp
    from Cons.IH [OF this] i npos show ?thesis by auto
  qed
qed

lemma get_nrepeat_count_length: "get_nrepeat_count action nact = Inr c \<Longrightarrow> length c = nact"
proof -
  assume a: "get_nrepeat_count action nact = Inr c"
  let ?a = "sort action"
  from a obtain counts start base where
    l: "count_loop ?a [0..<length ?a] (replicate nact 0, 0, 0) = Inr (counts, start, base)"
    and s: "np_set counts base (int (length ?a) - start) = Inr c"
    by (auto simp: get_nrepeat_count_def Let_def split: sum.splits prod.splits)
  from bounds_inv_loop [OF _ l] have "length counts = nact" by (simp add: bounds_inv_def)
  with s show ?thesis by (auto simp: np_set_def np_index_def split: if_splits)
qed

text \<open>
  Claim C1. If \<^verbatim>\<open>add_counts\<close> returns normally on a node that has not been expanded before
  (its \<^verbatim>\<open>children\<close> dictionary is still empty), then afterwards
  \<^verbatim>\<open>sum(nrepeats * isValid)\<close> equals the node's \<^verbatim>\<open>repeat\<close> exactly, the keys of \<^verbatim>\<open>children\<close>
  are exactly the actions \<open>a\<close> with \<^verbatim>\<open>nrepeats[a] > 0\<close>, and the child for \<open>a\<close> is the node that
  \<^verbatim>\<open>Pi_struct(size, nrepeats[a], level + 1, file_no, tau)\<close> constructs. This holds for whatever
  counts vector and whatever sample \<^verbatim>\<open>np.random.choice\<close> delivers, in particular for counts
  with \<^verbatim>\<open>sum(counts) == sum(counts * isValid) > 0\<close>.
\<close>

theorem add_counts_postcondition:
  assumes ok: "add_counts choice counts n w = Inr (n', w')" and fresh: "children n = []"
  shows "\<exists>iv nr masked.
           isValid (attrs n') = Some iv \<and> nrepeats (attrs n') = Some nr \<and>
           length nr = psize (attrs n) \<and>
           np_mul_mask nr iv = Inr masked \<and> sum_list masked = repeat (attrs n) \<and>
           fst ` set (children n') = {a. a < psize (attrs n) \<and> 0 < nr ! a} \<and>
           (\<forall>a c. map_of (children n') a = Some c \<longrightarrow>
              c = Pi_struct_init (psize (attrs n)) (nr ! a) (level (attrs n) + 1)
                    (pfile_no (attrs n)) (tau (attrs n))) \<and>
           evaluated (attrs n') \<and>
           attrs n' = (attrs n)\<lparr>Pi_vec := Pi_vec (attrs n'), nrepeats := Some nr, evaluated := True\<rparr>"
proof -
  let ?f = "attrs n"
  from ok obtain iv Pi action nr masked ch where
    iv: "isValid ?f = Some iv"
    and g: "get_nrepeat_count action (psize ?f) = Inr nr"
    and m: "np_mul_mask nr iv = Inr masked" and s: "repeat ?f = sum_list masked"
    and c: "add_children ?f nr [0..<psize ?f] (children n) = Inr ch"
    and n': "n' = Pi_struct (?f\<lparr>Pi_vec := Some Pi, nrepeats := Some nr, evaluated := True\<rparr>) ch"
    by (auto simp: add_counts_def Let_def split: option.splits sum.splits if_splits prod.splits)
  from get_nrepeat_count_length [OF g] have len: "length nr = psize ?f" .
  from add_children_map_of [OF c] fresh have mo: "\<And>a. map_of ch a =
        (if a < psize ?f \<and> 0 < nr ! a
         then Some (Pi_struct_init (psize ?f) (nr ! a) (level ?f + 1) (pfile_no ?f) (tau ?f))
         else None)" by simp
  have "fst ` set ch = dom (map_of ch)" by (simp add: dom_map_of_conv_image_fst)
  also have "\<dots> = {a. a < psize ?f \<and> 0 < nr ! a}" by (auto simp: mo dom_def)
  finally have keys: "fst ` set ch = {a. a < psize ?f \<and> 0 < nr ! a}" .
  have each: "\<forall>a c. map_of ch a = Some c \<longrightarrow>
      c = Pi_struct_init (psize ?f) (nr ! a) (level ?f + 1) (pfile_no ?f) (tau ?f)"
    by (auto simp: mo split: if_splits)
  from iv len m s keys each n' show ?thesis by simp
qed

lemma get_PI_31: "get_PI [3, 1] 1 = Inr [3 / 4, 1 / 4]"
  by (simp add: get_PI_def get_PI_loop.simps np_div_sum_def np_power_def)

lemma hist_0100: "get_nrepeat_count [0, 1, 0, 0] 2 = Inr [3, 1]"
  by code_simp

lemma upt2: "[0..<2] = [0, 1]"
  by code_simp

theorem add_counts_postcondition_witness:
  "add_counts sample_0100 [3, 1] root4 () = Inr (root4_expanded, ()) \<and> children root4 = [] \<and>
   np_mul_mask [3, 1 :: int] [True, True] = Inr [3, 1] \<and>
   fst ` set (children root4_expanded) = {0, 1}"
proof -
  have run: "add_counts sample_0100 [3, 1] root4 () = Inr (root4_expanded, ())"
    by (simp add: add_counts_def root4_def root4_expanded_def sample_0100_def tau1_def
        np_mul_mask_def get_PI_31 hist_0100 upt2 np_get_def np_index_def)
  have fresh: "children root4 = []" by (simp add: root4_def)
  have rest: "np_mul_mask [3, 1 :: int] [True, True] = Inr [3, 1]"
    "fst ` set (children root4_expanded) = {0, 1}"
    by (simp_all add: np_mul_mask_def root4_expanded_def)
  from add_counts_postcondition [OF run fresh] run fresh rest show ?thesis by simp
qed

section \<open>The finished phase\<close>

text \<open>
  Claim C9. Once \<^verbatim>\<open>phase\<close> is \<^verbatim>\<open>None\<close>, a call of \<^verbatim>\<open>get_state\<close> with any policy and value
  arguments (and any fuel, even none) returns \<^verbatim>\<open>None\<close> at once and leaves the driver, its
  tree included, as it was; so does every call of any later sequence of calls: the driver
  never leaves the finished phase.
\<close>

theorem finished_is_absorbing:
  assumes "phase m = None"
  shows "get_state k env pi_array v_value m = Some (Inr (None, m)) \<and>
         get_state_calls k env pvs m = Some (Inr (map (\<lambda>pv. None) pvs, m))"
proof -
  have one: "\<And>p v. get_state k env p v m = Some (Inr (None, m))"
    using assms by (simp add: get_state_def)
  have "get_state_calls k env pvs m = Some (Inr (map (\<lambda>pv. None) pvs, m))"
    by (induction pvs) (simp_all add: one)
  with one show ?thesis by simp
qed

theorem finished_is_absorbing_witness:
  "MCT_init solved_env () 7 2 4 (\<lambda>l. 1) 1000000 = Inr solved_mct \<and>
   phase solved_mct = None \<and>
   get_state 0 solved_env [1, 2] 0 solved_mct = Some (Inr (None, solved_mct)) \<and>
   get_state_calls 0 solved_env [([1, 2], 0), ([], 1)] solved_mct
     = Some (Inr ([None, None], solved_mct))"
proof -
  have p: "phase solved_mct = None" by (simp add: solved_mct_def)
  have i: "MCT_init solved_env () 7 2 4 (\<lambda>l. 1) 1000000 = Inr solved_mct"
    by (simp add: MCT_init_def solved_env_def solved_mct_def)
  from finished_is_absorbing [OF p, of 0 solved_env "[1, 2]" 0 "[([1, 2], 0), ([], 1)]"] p i
  show ?thesis by (simp del: get_state_calls.simps)
qed

section \<open>The scripted runs, evaluated\<close>

lemma softmax_Inr: "x \<noteq> [] \<Longrightarrow> \<exists>sm. softmax x = Inr sm"
proof -
  assume x: "x \<noteq> []"
  then obtain a where a: "a \<in> set x" by (cases x) auto
  have "0 < sum_list (map (\<lambda>a. exp (a - Max (set x))) x)"
    using a by (intro sum_list_pos) auto
  with x show ?thesis by (simp add: softmax_def np_div_sum_def)
qed

lemma scripted_env_sel:
  "resetAt (scripted_env d smp) n w = (Some obs1, [])"
  "simulate (scripted_env d smp) p v w = ((obs1, False, False), w)"
  "get_visit_count (scripted_env d smp) w = ([1, 0], w)"
  "step (scripted_env d smp) a w = ((d \<le> length w + 1, obs1), w @ [a])"
  "random_choice (scripted_env d smp) n r p w = (Inr smp, w)"
  by (simp_all add: scripted_env_def)

lemma script_mct_sel:
  "world (script_mct w ph cur r mn mx adv) = w"
  "file_no (script_mct w ph cur r mn mx adv) = 7"
  "state (script_mct w ph cur r mn mx adv) = Some obs1"
  "Pi_root (script_mct w ph cur r mn mx adv) = Some r"
  "Pi_current (script_mct w ph cur r mn mx adv) = cur"
  "min_step (script_mct w ph cur r mn mx adv) = mn"
  "max_step (script_mct w ph cur r mn mx adv) = mx"
  "resign (script_mct w ph cur r mn mx adv) = 1000000"
  "phase (script_mct w ph cur r mn mx adv) = ph"
  "traversals (script_mct w ph cur r mn mx adv) = adv"
  by (simp_all add: script_mct_def)

lemma script_mct_upd:
  "(script_mct w ph cur r mn mx adv)\<lparr>world := w'\<rparr> = script_mct w' ph cur r mn mx adv"
  "(script_mct w ph cur r mn mx adv)\<lparr>state := Some obs1\<rparr> = script_mct w ph cur r mn mx adv"
  "(script_mct w ph cur r mn mx adv)\<lparr>Pi_root := Some r'\<rparr> = script_mct w ph cur r' mn mx adv"
  "(script_mct w ph cur r mn mx adv)\<lparr>Pi_current := cur'\<rparr> = script_mct w ph cur' r mn mx adv"
  "(script_mct w ph cur r mn mx adv)\<lparr>min_step := mn'\<rparr> = script_mct w ph cur r mn' mx adv"
  "(script_mct w ph cur r mn mx adv)\<lparr>max_step := mx'\<rparr> = script_mct w ph cur r mn mx' adv"
  "(script_mct w ph cur r mn mx adv)\<lparr>phase := ph'\<rparr> = script_mct w ph' cur r mn mx adv"
  "(script_mct w ph cur r mn mx adv)\<lparr>traversals := adv'\<rparr> = script_mct w ph cur r mn mx adv'"
  by (simp_all add: script_mct_def)

lemma script_node_sel:
  "attrs (script_node lv R ev nx sc ch) = attrs (script_node lv R ev nx sc [])"
  "children (script_node lv R ev nx sc ch) = ch"
  by (simp_all add: script_node_def)

lemma script_node_attr:
  "score (attrs (script_node lv R ev nx sc ch)) = sc"
  "pnext (attrs (script_node lv R ev nx sc ch)) = nx"
  "level (attrs (script_node lv R ev nx sc ch)) = lv"
  "evaluated (attrs (script_node lv R ev nx sc ch)) = ev"
  "nrepeats (attrs (script_node lv R True nx sc ch)) = Some [R, 0]"
  by (simp_all add: script_node_def)

lemma init_script: "MCT_init (scripted_env d smp) w 7 1 R tau1 1000000
   = Inr (script_mct [] (Some False) [] (script_node 0 R False 0 0 []) 1000000 0 [])"
  by (simp add: MCT_init_def scripted_env_def add_state_def Pi_struct_init_def obs1_def
      np_any_axis0_def script_mct_def script_node_def upt2)

lemma pause_script:
  "\<not> ev \<Longrightarrow> node_at r cur = Some (script_node lv R ev nx sc ch) \<Longrightarrow>
   get_state (Suc (Suc k)) (scripted_env d smp) pv vv (script_mct w (Some False) cur r mn mx adv)
   = Some (Inr (Some obs1, script_mct w (Some True) cur r mn mx adv))"
  by (simp add: get_state_def expand_current_def script_mct_sel script_mct_upd script_node_def)

lemma get_PI_10: "get_PI [1, 0] 1 = Inr [1, 0]"
  by (simp add: get_PI_def get_PI_loop.simps np_div_sum_def np_power_def)

lemma hist_0: "get_nrepeat_count [0] 2 = Inr [1, 0]"
  by code_simp

lemma hist_00: "get_nrepeat_count [0, 0] 2 = Inr [2, 0]"
  by code_simp

lemma sm00: "softmax [0, 0] = Inr [1 / 2, 1 / 2]"
  by (simp add: softmax_def np_div_sum_def)

lemma add_counts_script:
  "get_nrepeat_count smp 2 = Inr [R, 0] \<Longrightarrow>
   add_counts (random_choice (scripted_env d smp)) [1, 0] (script_node lv R False 0 0 []) w
   = Inr (script_node lv R True 0 0
            (if 0 < R then [(0, Pi_struct_init 2 R (lv + 1) 7 tau1)] else []), w)"
  by (simp add: add_counts_def script_node_def scripted_env_sel tau1_def
      np_mul_mask_def get_PI_10 upt2 np_get_def np_index_def)

lemma expand_script:
  assumes "get_nrepeat_count smp 2 = Inr [R, 0]"
    and "node_at r cur = Some (script_node lv R False 0 0 [])"
  shows "expand_current (Suc (Suc k)) (scripted_env d smp) [0, 0] 0
           (script_mct w (Some True) cur r mn mx adv)
   = Some (Inr (Continue (script_mct w (Some False) cur
        (replace_at r cur (script_node lv R True 0 0
            (if 0 < R then [(0, Pi_struct_init 2 R (lv + 1) 7 tau1)] else []))) mn mx adv)))"
proof -
  have e: "evaluated (attrs (script_node lv R False 0 0 [])) = False"
    by (simp add: script_node_def)
  show ?thesis
    by (simp add: expand_current_def script_mct_sel script_mct_upd assms(2) e sm00
        scripted_env_sel add_counts_script [OF assms(1)])
qed

lemma get_next_script:
  "0 < R \<Longrightarrow> get_next (attrs (script_node lv R True 0 sc ch))
     = Inr (0, attrs (script_node lv R True 0 sc ch))"
  by (simp add: get_next_def get_next_loop.simps script_node_def np_get_def np_index_def)

lemma get_next_script_done:
  "get_next ((attrs (script_node lv R True 0 sc ch))\<lparr>score := x, pnext := Suc 0\<rparr>)
     = Inr (- 1, attrs (script_node lv R True 2 x ch))"
  "get_next (attrs (script_node lv R True 2 sc' ch))
     = Inr (- 1, attrs (script_node lv R True 2 sc' ch))"
  by (simp_all add: get_next_def get_next_loop.simps script_node_def np_get_def np_index_def)

lemma rebuild_script:
  "Pi_struct (attrs (script_node lv R ev nx sc ch')) ch = script_node lv R ev nx sc ch"
  by (simp add: script_node_def)

lemma set_next_script_root:
  "set_next (script_node lv R True 0 sc ch) [] s
     = Inr (- 1, script_node lv R True 2 (sc + s) ch, [([], s)])"
  by (subst set_next.simps)
     (simp add: get_next_script_done rebuild_script script_node_sel(2) script_node_attr)

lemma play_root_done:
  assumes R: "0 < R" and d: "d \<le> length w + 1"
  shows "play_step (scripted_env d smp)
           (script_mct w (Some False) [] (script_node 0 R True 0 0 ch) 1000000 0 adv)
   = Inr (Return None
       (script_mct (w @ [0]) None [] (script_node 0 R True 2 0 ch) 0 0
          (adv @ [Traversal [] 0 R [([], 0)]])))"
proof -
  show ?thesis
    using d
    by (simp add: play_step_def script_mct_sel script_mct_upd get_next_script [OF R]
        scripted_env_sel rebuild_script script_node_sel(2) finish_episode_def Let_def
        script_node_attr np_get_def np_index_def set_next_script_root)
qed

lemma init_child_script:
  "add_state obs1 (Pi_struct_init 2 R lv 7 tau1) = Inr (script_node lv R False 0 0 [])"
  by (simp add: add_state_def Pi_struct_init_def obs1_def np_any_axis0_def script_node_def upt2)

lemma finish_at_root:
  assumes R: "0 < R" and h: "get_nrepeat_count smp 2 = Inr [R, 0]"
  shows "get_state (Suc (Suc (Suc k))) (scripted_env 1 smp) [0, 0] 0
           (script_mct [] (Some True) [] (script_node 0 R False 0 0 []) 1000000 0 [])
   = Some (Inr (None, script_mct [0] None []
        (script_node 0 R True 2 0 [(0, Pi_struct_init 2 R 1 7 tau1)]) 0 0 [Traversal [] 0 R [([], 0)]]))"
proof -
  have n: "node_at (script_node 0 R False 0 0 []) [] = Some (script_node 0 R False 0 0 [])"
    by simp
  from expand_script [OF h n, of k 1 "[]" 1000000 0 "[]"] R
  have e: "expand_current (Suc (Suc k)) (scripted_env 1 smp) [0, 0] 0
           (script_mct [] (Some True) [] (script_node 0 R False 0 0 []) 1000000 0 [])
     = Some (Inr (Continue (script_mct [] (Some False) []
          (script_node 0 R True 0 0 [(0, Pi_struct_init 2 R 1 7 tau1)]) 1000000 0 [])))"
    by simp
  from play_root_done [OF R, of 1 "[]" smp "[(0, Pi_struct_init 2 R 1 7 tau1)]" "[]"]
  have p: "play_step (scripted_env 1 smp)
           (script_mct [] (Some False) [] (script_node 0 R True 0 0 [(0, Pi_struct_init 2 R 1 7 tau1)]) 1000000 0 [])
     = Inr (Return None (script_mct [0] None []
          (script_node 0 R True 2 0 [(0, Pi_struct_init 2 R 1 7 tau1)]) 0 0 [Traversal [] 0 R [([], 0)]]))"
    by simp
  show ?thesis using e p by (simp add: get_state_def script_mct_sel)
qed

lemma descend_from_root:
  "get_state (Suc (Suc (Suc (Suc k)))) (scripted_env 2 [0]) [0, 0] 0
           (script_mct [] (Some True) [] (script_node 0 1 False 0 0 []) 1000000 0 [])
   = Some (Inr (Some obs1, script_mct [0] (Some True) [0]
        (script_node 0 1 True 0 0 [(0, script_node 1 1 False 0 0 [])]) 1000000 0 []))"
proof -
  have n: "node_at (script_node 0 1 False 0 0 []) [] = Some (script_node 0 1 False 0 0 [])"
    by simp
  from expand_script [OF hist_0 n, of "Suc k" 2 "[]" 1000000 0 "[]"]
  have e: "expand_current (Suc (Suc (Suc k))) (scripted_env 2 [0]) [0, 0] 0
           (script_mct [] (Some True) [] (script_node 0 1 False 0 0 []) 1000000 0 [])
     = Some (Inr (Continue (script_mct [] (Some False) []
          (script_node 0 1 True 0 0 [(0, Pi_struct_init 2 1 1 7 tau1)]) 1000000 0 [])))"
    by simp
  have p: "play_step (scripted_env 2 [0])
           (script_mct [] (Some False) [] (script_node 0 1 True 0 0 [(0, Pi_struct_init 2 1 1 7 tau1)]) 1000000 0 [])
     = Inr (Continue (script_mct [0] (Some False) [0]
          (script_node 0 1 True 0 0 [(0, script_node 1 1 False 0 0 [])]) 1000000 0 []))"
    by (simp add: play_step_def script_mct_sel script_mct_upd get_next_script
        scripted_env_sel rebuild_script script_node_sel(2) descend_def Let_def
        script_node_attr init_child_script)
  have e2: "expand_current (Suc (Suc k)) (scripted_env 2 [0]) [0, 0] 0
       (script_mct [0] (Some False) [0]
          (script_node 0 1 True 0 0 [(0, script_node 1 1 False 0 0 [])]) 1000000 0 [])
     = Some (Inr (Return (Some obs1) (script_mct [0] (Some True) [0]
          (script_node 0 1 True 0 0 [(0, script_node 1 1 False 0 0 [])]) 1000000 0 [])))"
    by (simp add: expand_current_def script_mct_sel script_mct_upd script_node_sel(2)
        script_node_attr)
  show ?thesis using e p e2 by (simp add: get_state_def script_mct_sel)
qed

lemma set_next_script_child:
  "set_next (script_node 0 1 True 0 0 [(0, script_node 1 1 True 0 0 ch)]) [0] s
     = Inr (- 1, script_node 0 1 True 2 s [(0, script_node 1 1 True 2 s ch)],
            [([0], s), ([], s)])"
  by (subst set_next.simps)
     (simp add: get_next_script_done rebuild_script script_node_sel(2) script_node_attr
        set_next_script_root)

lemma finish_at_child:
  "get_state (Suc (Suc (Suc k))) (scripted_env 2 [0]) [0, 0] 0
       (script_mct [0] (Some True) [0]
          (script_node 0 1 True 0 0 [(0, script_node 1 1 False 0 0 [])]) 1000000 0 [])
   = Some (Inr (None, script_mct [0, 0] None [0]
        (script_node 0 1 True 2 1
           [(0, script_node 1 1 True 2 1 [(0, Pi_struct_init 2 1 2 7 tau1)])])
        1 1 [Traversal [0] 0 1 [([0], 1), ([], 1)]]))"
proof -
  have n: "node_at (script_node 0 1 True 0 0 [(0, script_node 1 1 False 0 0 [])]) [0]
      = Some (script_node 1 1 False 0 0 [])"
    by (simp add: script_node_sel(2))
  from expand_script [OF hist_0 n, of k 2 "[0]" 1000000 0 "[]"]
  have e: "expand_current (Suc (Suc k)) (scripted_env 2 [0]) [0, 0] 0
       (script_mct [0] (Some True) [0]
          (script_node 0 1 True 0 0 [(0, script_node 1 1 False 0 0 [])]) 1000000 0 [])
     = Some (Inr (Continue (script_mct [0] (Some False) [0]
          (script_node 0 1 True 0 0
             [(0, script_node 1 1 True 0 0 [(0, Pi_struct_init 2 1 2 7 tau1)])]) 1000000 0 [])))"
    by (simp add: script_node_sel(2) rebuild_script)
  have p: "play_step (scripted_env 2 [0])
       (script_mct [0] (Some False) [0]
          (script_node 0 1 True 0 0
             [(0, script_node 1 1 True 0 0 [(0, Pi_struct_init 2 1 2 7 tau1)])]) 1000000 0 [])
     = Inr (Return None (script_mct [0, 0] None [0]
        (script_node 0 1 True 2 1
           [(0, script_node 1 1 True 2 1 [(0, Pi_struct_init 2 1 2 7 tau1)])])
        1 1 [Traversal [0] 0 1 [([0], 1), ([], 1)]]))"
    by (simp add: play_step_def script_mct_sel script_mct_upd get_next_script
        scripted_env_sel rebuild_script script_node_sel(2) finish_episode_def Let_def
        script_node_attr np_get_def np_index_def set_next_script_child)
  show ?thesis using e p by (simp add: get_state_def script_mct_sel)
qed

lemma fuel3: "(3::nat) = Suc (Suc (Suc 0))" and fuel4: "(4::nat) = Suc (Suc (Suc (Suc 0)))"
  by simp_all

lemma root_is_there: "node_at (script_node lv R ev nx sc ch) [] = Some (script_node lv R ev nx sc ch)"
  by simp

lemma run_root_done:
  assumes R: "0 < R" and h: "get_nrepeat_count smp 2 = Inr [R, 0]"
  shows "get_state_calls 3 (scripted_env 1 smp) [([0, 0], 0), ([0, 0], 0)]
       (script_mct [] (Some False) [] (script_node 0 R False 0 0 []) 1000000 0 [])
   = Some (Inr ([Some obs1, None],
        script_mct [0] None [] (script_node 0 R True 2 0 [(0, Pi_struct_init 2 R 1 7 tau1)])
          0 0 [Traversal [] 0 R [([], 0)]]))"
  using pause_script [OF _ root_is_there, where ev = False and k = "Suc 0" and d = 1
      and smp = smp and pv = "[0, 0]" and vv = 0 and w = "[]" and R = R and lv = 0]
    finish_at_root [OF R h, of 0]
  unfolding fuel3 by simp

lemma run_two_levels:
  "get_state_calls 4 (scripted_env 2 [0]) [([0, 0], 0), ([0, 0], 0), ([0, 0], 0)]
       (script_mct [] (Some False) [] (script_node 0 1 False 0 0 []) 1000000 0 [])
   = Some (Inr ([Some obs1, Some obs1, None],
        script_mct [0, 0] None [0]
          (script_node 0 1 True 2 1
             [(0, script_node 1 1 True 2 1 [(0, Pi_struct_init 2 1 2 7 tau1)])])
          1 1 [Traversal [0] 0 1 [([0], 1), ([], 1)]]))"
  using pause_script [OF _ root_is_there, where ev = False and k = "Suc (Suc 0)" and d = 2
      and smp = "[0]" and pv = "[0, 0]" and vv = 0 and w = "[]" and R = 1 and lv = 0]
    descend_from_root [of 0] finish_at_child [of "Suc 0"]
  unfolding fuel4 by simp

section \<open>Emission visits the expanded nodes in post-order\<close>

lemma emittable_child:
  "emittable (Pi_struct f ch) \<Longrightarrow> ac \<in> set ch \<Longrightarrow> emittable (snd ac)"
  by (auto simp: emittable_def)

lemma emittable_self:
  "emittable (Pi_struct f ch) \<Longrightarrow>
     (if evaluated f then repeat f \<noteq> 0 \<and> pstate f \<noteq> None \<and> Pi_vec f \<noteq> None else ch = [])"
  by (auto simp: emittable_def split: if_splits)

lemma dump_correct:
  "emittable n \<Longrightarrow> fst (snd std) \<noteq> 0 \<Longrightarrow>
     analyze_Pi_graph_dump fno n buf std = Inr (buf @ emitted fno (fst (snd std)) n)"
  "\<forall>ac\<in>set cs. emittable (snd ac) \<Longrightarrow> fst (snd std) \<noteq> 0 \<Longrightarrow>
     dump_children fno cs buf std
       = Inr (buf @ concat (map (\<lambda>ac. emitted fno (fst (snd std)) (snd ac)) cs))"
proof (induction fno n buf std and fno cs buf std
    rule: analyze_Pi_graph_dump_dump_children.induct)
  case (1 fno f ch buf std)
  show ?case
  proof (cases "evaluated f")
    case False
    with emittable_self [OF "1.prems"(1)] show ?thesis by (simp add: emitted_def)
  next
    case True
    from emittable_self [OF "1.prems"(1)] True obtain st Pi where
      f: "repeat f \<noteq> 0" "pstate f = Some st" "Pi_vec f = Some Pi" by auto
    have "\<forall>ac\<in>set ch. emittable (snd ac)"
      using emittable_child [OF "1.prems"(1)] by blast
    from "1.IH" [OF _ this "1.prems"(2)] True
    have d: "dump_children fno ch buf std
       = Inr (buf @ concat (map (\<lambda>ac. emitted fno (fst (snd std)) (snd ac)) ch))" by simp
    have pm: "filter (\<lambda>x. evaluated (attrs x)) (concat (map (\<lambda>ac. postorder (snd ac)) ch))
      = concat (map (\<lambda>ac. filter (\<lambda>x. evaluated (attrs x)) (postorder (snd ac))) ch)"
      by (simp add: filter_concat comp_def)
    show ?thesis
      using True f "1.prems"(2) d
      by (simp add: emitted_def pm map_concat comp_def example_spec_def algebra_simps)
  qed
next
  case (2 fno buf std)
  then show ?case by simp
next
  case (3 fno ac cs buf std)
  from "3.prems" have e: "emittable (snd ac)" and es: "\<forall>ac\<in>set cs. emittable (snd ac)" by simp_all
  from "3.IH"(1) [OF e "3.prems"(2)]
  have a: "analyze_Pi_graph_dump fno (snd ac) buf std = Inr (buf @ emitted fno (fst (snd std)) (snd ac))" .
  from "3.IH"(2) [OF a es "3.prems"(2)] a show ?case by simp
qed

text \<open>
  Claim C8. On a tree of the shape the driver builds (\<open>emittable\<close>), with a non-zero root
  \<^verbatim>\<open>repeat\<close> and, when the root is expanded, a non-zero root \<^verbatim>\<open>score\<close> (so that every division
  is defined in real arithmetic), \<^verbatim>\<open>write_data_to_buffer\<close> appends to the buffer exactly the
  examples of the expanded nodes in post-order, children before their parent, nodes that
  are not expanded skipped: for each expanded node the tuple
  \<open>(problemId, cachedState, policy, score, repeatBudget)\<close> with
  \<open>score = tanh (3 * (meanScale - averageOutcome) / meanScale)\<close>,
  \<open>averageOutcome = accumulatedScore / repeatBudget\<close> and
  \<open>meanScale = rootAccumulatedScore / rootRepeatBudget\<close>.
\<close>

theorem emission_is_postorder:
  assumes root: "Pi_root m = Some r" and shape: "emittable r"
    and rep: "repeat (attrs r) \<noteq> 0"
    and mean: "evaluated (attrs r) \<longrightarrow> score (attrs r) \<noteq> 0"
  shows "write_data_to_buffer m buf = Inr (buf @ emission_spec (file_no m) r)"
proof -
  let ?mean = "real_of_int (score (attrs r)) / real_of_int (repeat (attrs r))"
  let ?std = "(min_step m, ?mean, max_step m)"
  have spec: "emission_spec (file_no m) r = emitted (file_no m) ?mean r"
    by (simp add: emission_spec_def emitted_def)
  show ?thesis
  proof (cases "evaluated (attrs r)")
    case True
    with mean rep have "fst (snd ?std) \<noteq> 0" by simp
    from dump_correct(1) [OF shape this, of "file_no m" buf] root rep spec
    show ?thesis by (simp add: write_data_to_buffer_def)
  next
    case False
    obtain f ch where r: "r = Pi_struct f ch" by (cases r)
    with False emittable_self [of f ch] shape have ch: "ch = []" and ne: "\<not> evaluated f" by auto
    with r root rep show ?thesis
      by (simp add: write_data_to_buffer_def emission_spec_def)
  qed
qed

theorem emission_is_postorder_witness:
  "write_data_to_buffer
     (script_mct [0, 0] None [0]
        (script_node 0 1 True 2 1
           [(0, script_node 1 1 True 2 1 [(0, Pi_struct_init 2 1 2 7 tau1)])])
        1 1 [Traversal [0] 0 1 [([0], 1), ([], 1)]]) []
   = Inr [(7, \<lparr>nrows = 1, ncols = 2, entries = [1, 0]\<rparr>, [1, 0], 0, 1),
          (7, \<lparr>nrows = 1, ncols = 2, entries = [1, 0]\<rparr>, [1, 0], 0, 1)]"
proof -
  let ?r = "script_node 0 1 True 2 1
           [(0, script_node 1 1 True 2 1 [(0, Pi_struct_init 2 1 2 7 tau1)])]"
  let ?m = "script_mct [0, 0] None [0] ?r 1 1 [Traversal [0] 0 1 [([0], 1), ([], 1)]]"
  have root: "Pi_root ?m = Some ?r" by (simp add: script_mct_sel)
  have shape: "emittable ?r"
    by (simp add: emittable_def script_node_def Pi_struct_init_def)
  have rep: "repeat (attrs ?r) \<noteq> 0" by (simp add: script_node_def)
  have mean: "evaluated (attrs ?r) \<longrightarrow> score (attrs ?r) \<noteq> 0" by (simp add: script_node_def)
  have spec: "emission_spec (file_no ?m) ?r
     = [(7, \<lparr>nrows = 1, ncols = 2, entries = [1, 0]\<rparr>, [1, 0], 0, 1),
        (7, \<lparr>nrows = 1, ncols = 2, entries = [1, 0]\<rparr>, [1, 0], 0, 1)]"
    by (simp add: emission_spec_def example_spec_def script_mct_sel script_node_def
        Pi_struct_init_def)
  from emission_is_postorder [OF root shape rep mean, of "[]"] spec show ?thesis by simp
qed

section \<open>The one-step terminal scenario\<close>

text \<open>
  Claim C3 as stated fails. On a problem whose first \<^verbatim>\<open>step\<close> reports \<^verbatim>\<open>isDone\<close>, with
  \<^verbatim>\<open>nrepeat = 1\<close> and \<^verbatim>\<open>resign = 1000000\<close>, the traversal ends at the root, whose \<^verbatim>\<open>level\<close> is
  0: \<^verbatim>\<open>set_next\<close> is called once with the score \<open>0 * 1 = 0\<close>, the root's score stays 0 and
  \<^verbatim>\<open>report_performance\<close> returns \<open>(7, 1, 0)\<close>, not \<open>(7, 1, 1)\<close>.
\<close>

theorem one_step_scenario_counterexample:
  "MCT_init (scripted_env 1 [0]) [] 7 1 1 tau1 1000000
     = Inr (script_mct [] (Some False) [] (script_node 0 1 False 0 0 []) 1000000 0 []) \<and>
   get_state_calls 3 (scripted_env 1 [0]) [([0, 0], 0), ([0, 0], 0)]
       (script_mct [] (Some False) [] (script_node 0 1 False 0 0 []) 1000000 0 [])
     = Some (Inr ([Some obs1, None],
        script_mct [0] None [] (script_node 0 1 True 2 0 [(0, Pi_struct_init 2 1 1 7 tau1)])
          0 0 [Traversal [] 0 1 [([], 0)]])) \<and>
   report_performance
       (script_mct [0] None [] (script_node 0 1 True 2 0 [(0, Pi_struct_init 2 1 1 7 tau1)])
          0 0 [Traversal [] 0 1 [([], 0)]])
     = (7, 1, 0)"
proof (intro conjI)
  show "MCT_init (scripted_env 1 [0]) [] 7 1 1 tau1 1000000
     = Inr (script_mct [] (Some False) [] (script_node 0 1 False 0 0 []) 1000000 0 [])"
    by (rule init_script)
  show "get_state_calls 3 (scripted_env 1 [0]) [([0, 0], 0), ([0, 0], 0)]
       (script_mct [] (Some False) [] (script_node 0 1 False 0 0 []) 1000000 0 [])
     = Some (Inr ([Some obs1, None],
        script_mct [0] None [] (script_node 0 1 True 2 0 [(0, Pi_struct_init 2 1 1 7 tau1)])
          0 0 [Traversal [] 0 1 [([], 0)]]))"
    by (rule run_root_done [OF _ hist_0]) simp
  show "report_performance
       (script_mct [0] None [] (script_node 0 1 True 2 0 [(0, Pi_struct_init 2 1 1 7 tau1)])
          0 0 [Traversal [] 0 1 [([], 0)]])
     = (7, 1, 0)"
    by (simp add: report_performance_def script_mct_sel script_node_def)
qed

section \<open>Conservation of the score\<close>

text \<open>
  Claim C4 as stated fails. In a run of depth two with one repeat the driver passes the
  score 1 to the child, and the child passes its accumulated score 1 on to the root: the
  scores passed into the two \<^verbatim>\<open>set_next\<close> calls sum to 2, the root's final score is 1.
\<close>

theorem score_sum_counterexample:
  "MCT_init (scripted_env 2 [0]) [] 7 1 1 tau1 1000000
     = Inr (script_mct [] (Some False) [] (script_node 0 1 False 0 0 []) 1000000 0 []) \<and>
   get_state_calls 4 (scripted_env 2 [0]) [([0, 0], 0), ([0, 0], 0), ([0, 0], 0)]
       (script_mct [] (Some False) [] (script_node 0 1 False 0 0 []) 1000000 0 [])
   = Some (Inr ([Some obs1, Some obs1, None],
        script_mct [0, 0] None [0]
          (script_node 0 1 True 2 1
             [(0, script_node 1 1 True 2 1 [(0, Pi_struct_init 2 1 2 7 tau1)])])
          1 1 [Traversal [0] 0 1 [([0], 1), ([], 1)]])) \<and>
   sum_list (map snd (concat (map t_calls [Traversal [0] 0 1 [([0], 1), ([], 1)]]))) = 2 \<and>
   score (attrs (script_node 0 1 True 2 1
             [(0, script_node 1 1 True 2 1 [(0, Pi_struct_init 2 1 2 7 tau1)])])) = 1"
proof (intro conjI)
  show "MCT_init (scripted_env 2 [0]) [] 7 1 1 tau1 1000000
     = Inr (script_mct [] (Some False) [] (script_node 0 1 False 0 0 []) 1000000 0 [])"
    by (rule init_script)
  show "get_state_calls 4 (scripted_env 2 [0]) [([0, 0], 0), ([0, 0], 0), ([0, 0], 0)]
       (script_mct [] (Some False) [] (script_node 0 1 False 0 0 []) 1000000 0 [])
   = Some (Inr ([Some obs1, Some obs1, None],
        script_mct [0, 0] None [0]
          (script_node 0 1 True 2 1
             [(0, script_node 1 1 True 2 1 [(0, Pi_struct_init 2 1 2 7 tau1)])])
          1 1 [Traversal [0] 0 1 [([0], 1), ([], 1)]]))"
    by (rule run_two_levels)
  show "sum_list (map snd (concat (map t_calls [Traversal [0] 0 1 [([0], 1), ([], 1)]]))) = 2"
    by simp
  show "score (attrs (script_node 0 1 True 2 1
             [(0, script_node 1 1 True 2 1 [(0, Pi_struct_init 2 1 2 7 tau1)])])) = 1"
    by (simp add: script_node_def)
qed

section \<open>Traversals and the repeat budget\<close>

text \<open>
  Claim C5 as stated fails. With a root repeat budget of 2, both samples on action 0 and
  an episode that is done at the first step, one traversal exhausts the root: the call
  \<^verbatim>\<open>set_next(level * nrepeats[next_act])\<close> credits both repeats at once and returns \<open>-1\<close>.
\<close>

theorem traversal_count_counterexample:
  "MCT_init (scripted_env 1 [0, 0]) [] 7 1 2 tau1 1000000
     = Inr (script_mct [] (Some False) [] (script_node 0 2 False 0 0 []) 1000000 0 []) \<and>
   get_state_calls 3 (scripted_env 1 [0, 0]) [([0, 0], 0), ([0, 0], 0)]
       (script_mct [] (Some False) [] (script_node 0 2 False 0 0 []) 1000000 0 [])
     = Some (Inr ([Some obs1, None],
        script_mct [0] None [] (script_node 0 2 True 2 0 [(0, Pi_struct_init 2 2 1 7 tau1)])
          0 0 [Traversal [] 0 2 [([], 0)]])) \<and>
   length (traversals
       (script_mct [0] None [] (script_node 0 2 True 2 0 [(0, Pi_struct_init 2 2 1 7 tau1)])
          0 0 [Traversal [] 0 2 [([], 0)]])) = 1 \<and>
   repeat (attrs (script_node 0 2 True 2 0 [(0, Pi_struct_init 2 2 1 7 tau1)])) = 2"
proof (intro conjI)
  show "MCT_init (scripted_env 1 [0, 0]) [] 7 1 2 tau1 1000000
     = Inr (script_mct [] (Some False) [] (script_node 0 2 False 0 0 []) 1000000 0 [])"
    by (rule init_script)
  show "get_state_calls 3 (scripted_env 1 [0, 0]) [([0, 0], 0), ([0, 0], 0)]
       (script_mct [] (Some False) [] (script_node 0 2 False 0 0 []) 1000000 0 [])
     = Some (Inr ([Some obs1, None],
        script_mct [0] None [] (script_node 0 2 True 2 0 [(0, Pi_struct_init 2 2 1 7 tau1)])
          0 0 [Traversal [] 0 2 [([], 0)]]))"
    by (rule run_root_done [OF _ hist_00]) simp
  show "length (traversals
       (script_mct [0] None [] (script_node 0 2 True 2 0 [(0, Pi_struct_init 2 2 1 7 tau1)])
          0 0 [Traversal [] 0 2 [([], 0)]])) = 1"
    by (simp add: script_mct_sel)
  show "repeat (attrs (script_node 0 2 True 2 0 [(0, Pi_struct_init 2 2 1 7 tau1)])) = 2"
    by (simp add: script_node_def)
qed

end
